theory Spec2Isabelle
  imports Main
begin

section \<open>Data model\<close>

text \<open>
  The repository holds two copies of the server. They have the same tables, the same
  \<^verbatim>\<open>scanForPayments\<close> and the same \<^verbatim>\<open>mintAndSend\<close>, and differ in how the designs are
  loaded, which happens inside the issuance and is part of \<open>issue\<close> below.

  The server keeps two SQLite tables. A row of \<^verbatim>\<open>mints\<close> is written by exactly one
  statement of the program, the \<^verbatim>\<open>INSERT OR IGNORE\<close> of \<^verbatim>\<open>mintAndSend\<close>, which binds three
  JavaScript strings, so \<^verbatim>\<open>stake_key\<close>, \<^verbatim>\<open>payer_address\<close> and \<^verbatim>\<open>paid_tx\<close> are strings
  here; \<^verbatim>\<open>minted_tx\<close> and \<^verbatim>\<open>asset_name\<close> are NULL (\<open>None\<close>) until the \<^verbatim>\<open>UPDATE\<close>.
  The columns \<^verbatim>\<open>id\<close> and \<^verbatim>\<open>created_at\<close> are filled by the database (its row counter and
  its clock) and never read by the program; they are left out.
\<close>

record mint_row =
  stake_key :: string
  payer_address :: string
  paid_tx :: string
  minted_tx :: "string option"
  asset_name :: "string option"

text \<open>
  The calls made to the outside world are logged, so that "no lookup" and "no issuance"
  can be stated. The program never reads the log.
\<close>

datatype call =
  TxUtxos string
| Fulfil string string string

record state =
  mints :: "mint_row list"
  seen_utxos :: "string list"
  calls :: "call list"

text \<open>The JSON values returned by the indexing service.\<close>

record amount_entry =
  unit :: string
  quantity :: string

record utxo =
  tx_hash :: string
  output_index :: nat
  amount :: "amount_entry list"

record tx_input =
  address :: "string option"

record tx_utxos =
  inputs :: "tx_input list option"

record credential =
  hash :: string

record address_details =
  stakeCredential :: "credential option"

datatype error = BlockfrostError | SyntaxError | LucidError

text \<open>
  The environment of one pass: the configured price and the answers of the collaborators.
  \<open>address_utxos\<close> is the result of the page request, \<open>fetch_tx_utxos\<close> that of
  \<^verbatim>\<open>fetchJson(`/txs/${tx_hash}/utxos`)\<close>, \<open>getAddressDetails\<close> is the wallet library's
  address parser (it may throw), and \<open>issue\<close> is everything \<^verbatim>\<open>mintAndSend\<close> does between its
  \<^verbatim>\<open>INSERT\<close> and its \<^verbatim>\<open>UPDATE\<close> (load the designs, pick one at random, build, sign and
  submit the transaction): it throws, or yields the submitted transaction hash and the
  name of the chosen design. A paid transaction id reaches \<open>issue\<close> at most once, since it
  is unique in \<^verbatim>\<open>mints\<close>, so a function of the arguments loses nothing. Within one pass
  the indexing service is taken to answer the same lookup the same way; from pass to pass
  the environment may change.
\<close>

record env =
  PRICE :: int
  address_utxos :: "error + utxo list"
  fetch_tx_utxos :: "string \<Rightarrow> error + tx_utxos"
  getAddressDetails :: "string \<Rightarrow> error + address_details"
  issue :: "string \<Rightarrow> string \<Rightarrow> error + string \<times> string"

section \<open>BigInt of a string\<close>

text \<open>
  \<^verbatim>\<open>BigInt(s)\<close> on a string follows the StringIntegerLiteral grammar: optional white space
  around either a signed run of decimal digits or an unsigned literal with prefix
  \<^verbatim>\<open>0x\<close>, \<^verbatim>\<open>0o\<close> or \<^verbatim>\<open>0b\<close>; the empty literal is zero; anything else is a SyntaxError.
  A character is an 8-bit code unit here, so of the white space characters of the grammar
  those up to U+00FF are listed: TAB, LF, VT, FF, CR, SP and NBSP.
\<close>

definition StrWhiteSpaceChar :: "char \<Rightarrow> bool" where
  "StrWhiteSpaceChar c =
     (c = CHR 0x09 \<or> c = CHR 0x0A \<or> c = CHR 0x0B \<or> c = CHR 0x0C \<or> c = CHR 0x0D \<or> c = CHR 0x20 \<or>
      c = CHR 0xA0)"

definition trim :: "string \<Rightarrow> string" where
  "trim s = rev (dropWhile StrWhiteSpaceChar (rev (dropWhile StrWhiteSpaceChar s)))"

definition digit_value :: "char \<Rightarrow> nat option" where
  "digit_value c =
     (let n = (of_char c :: nat) in
      if 48 \<le> n \<and> n \<le> 57 then Some (n - 48)
      else if 97 \<le> n \<and> n \<le> 102 then Some (n - 87)
      else if 65 \<le> n \<and> n \<le> 70 then Some (n - 55)
      else None)"

fun digits_value :: "nat \<Rightarrow> string \<Rightarrow> nat \<Rightarrow> nat option" where
  "digits_value r [] acc = Some acc"
| "digits_value r (c # cs) acc =
     (case digit_value c of
        None \<Rightarrow> None
      | Some d \<Rightarrow> if d < r then digits_value r cs (acc * r + d) else None)"

definition numeral_value :: "nat \<Rightarrow> string \<Rightarrow> nat option" where
  "numeral_value r ds = (if ds = [] then None else digits_value r ds 0)"

definition StringToBigInt :: "string \<Rightarrow> int option" where
  "StringToBigInt str =
     (let t = trim str in
      if t = [] then Some 0
      else if hd t = CHR ''+'' then map_option int (numeral_value 10 (tl t))
      else if hd t = CHR ''-'' then map_option (\<lambda>n. - int n) (numeral_value 10 (tl t))
      else if take 2 t = ''0x'' \<or> take 2 t = ''0X'' then map_option int (numeral_value 16 (drop 2 t))
      else if take 2 t = ''0o'' \<or> take 2 t = ''0O'' then map_option int (numeral_value 8 (drop 2 t))
      else if take 2 t = ''0b'' \<or> take 2 t = ''0B'' then map_option int (numeral_value 2 (drop 2 t))
      else map_option int (numeral_value 10 t))"

definition BigInt :: "string \<Rightarrow> error + int" where
  "BigInt s = (case StringToBigInt s of None \<Rightarrow> Inl SyntaxError | Some n \<Rightarrow> Inr n)"

section \<open>The deposit classifier\<close>

text \<open>
  \<^verbatim>\<open>
  const onlyLovelace = u.amount.length === 1 && u.amount[0].unit === 'lovelace';
  const qty = onlyLovelace ? BigInt(u.amount[0].quantity) : 0n;
  if (!(onlyLovelace && qty === PRICE)) { ... }
  \<close>
  The value is \<open>Inr\<close> of the truth value of \<^verbatim>\<open>onlyLovelace && qty === PRICE\<close>, or \<open>Inl\<close> of the
  error \<^verbatim>\<open>BigInt\<close> throws.
\<close>

definition onlyLovelace :: "utxo \<Rightarrow> bool" where
  "onlyLovelace u = (case amount u of [a] \<Rightarrow> unit a = ''lovelace'' | _ \<Rightarrow> False)"

definition qty :: "utxo \<Rightarrow> error + int" where
  "qty u = (if onlyLovelace u then BigInt (quantity (hd (amount u))) else Inr 0)"

definition qualifies :: "int \<Rightarrow> utxo \<Rightarrow> error + bool" where
  "qualifies price u =
     (case qty u of Inl e \<Rightarrow> Inl e | Inr q \<Rightarrow> Inr (onlyLovelace u \<and> q = price))"

section \<open>The statements on the two tables\<close>

text \<open>
  \<^verbatim>\<open>INSERT OR IGNORE INTO mints (stake_key, payer_address, paid_tx) VALUES (?, ?, ?)\<close>:
  both \<^verbatim>\<open>stake_key\<close> and \<^verbatim>\<open>paid_tx\<close> are UNIQUE, so a row that repeats either is ignored.
  The result is the number of changed rows and the table.
\<close>

text \<open>The row the statement inserts: the three bound values, the other columns NULL.\<close>

definition pending_row :: "string \<Rightarrow> string \<Rightarrow> string \<Rightarrow> mint_row" where
  "pending_row stakeKey payerAddress paidTx =
     \<lparr>stake_key = stakeKey, payer_address = payerAddress,
      paid_tx = paidTx, minted_tx = None, asset_name = None\<rparr>"

definition insert_or_ignore_mint ::
    "string \<Rightarrow> string \<Rightarrow> string \<Rightarrow> mint_row list \<Rightarrow> nat \<times> mint_row list" where
  "insert_or_ignore_mint stakeKey payerAddress paidTx rows =
     (if stakeKey \<in> set (map stake_key rows) \<or> paidTx \<in> set (map paid_tx rows)
      then (0, rows)
      else (1, rows @ [pending_row stakeKey payerAddress paidTx]))"

text \<open>\<^verbatim>\<open>UPDATE mints SET minted_tx=?, asset_name=? WHERE paid_tx=?\<close>\<close>

definition update_minted :: "string \<Rightarrow> string \<Rightarrow> string \<Rightarrow> mint_row list \<Rightarrow> mint_row list" where
  "update_minted txHash name paidTx rows =
     map (\<lambda>r. if paid_tx r = paidTx
               then r\<lparr>minted_tx := Some txHash, asset_name := Some name\<rparr> else r) rows"

text \<open>A call to a collaborator enters the log.\<close>

definition log_call :: "call \<Rightarrow> state \<Rightarrow> state" where
  "log_call c s = s\<lparr>calls := calls s @ [c]\<rparr>"

text \<open>\<^verbatim>\<open>INSERT OR IGNORE INTO seen_utxos (utxo) VALUES (?)\<close>, on the primary key \<^verbatim>\<open>utxo\<close>.\<close>

definition mark_seen :: "string \<Rightarrow> state \<Rightarrow> state" where
  "mark_seen utxoId s =
     (if utxoId \<in> set (seen_utxos s) then s
      else s\<lparr>seen_utxos := seen_utxos s @ [utxoId]\<rparr>)"

section \<open>Helpers\<close>

text \<open>
  \<^verbatim>\<open>
  function getStakeKeyFromAddr(address) {
    try {
      const d = lucid.utils.getAddressDetails(address);
      return d.stakeCredential?.hash || null;
    } catch { return null; }
  }
  \<close>
  The empty string is falsy, so \<^verbatim>\<open>|| null\<close> turns an empty hash into null.
\<close>

definition getStakeKeyFromAddr :: "env \<Rightarrow> string \<Rightarrow> string option" where
  "getStakeKeyFromAddr env addr =
     (case getAddressDetails env addr of
        Inl e \<Rightarrow> None
      | Inr d \<Rightarrow>
          (case stakeCredential d of
             None \<Rightarrow> None
           | Some c \<Rightarrow> if hash c = [] then None else Some (hash c)))"

text \<open>
  \<^verbatim>\<open>
  const firstInput = txUtxos?.inputs?.[0];
  const payerAddr = firstInput?.address;
  if (!payerAddr) { ... }
  \<close>
  \<open>None\<close> stands for a falsy \<^verbatim>\<open>payerAddr\<close>: no inputs, no address, or the empty string.
\<close>

definition payerAddr :: "tx_utxos \<Rightarrow> string option" where
  "payerAddr txUtxos =
     (case inputs txUtxos of
        None \<Rightarrow> None
      | Some [] \<Rightarrow> None
      | Some (firstInput # _) \<Rightarrow>
          (case address firstInput of
             None \<Rightarrow> None
           | Some a \<Rightarrow> if a = [] then None else Some a))"

text \<open>
  The number \<^verbatim>\<open>output_index\<close> printed in decimal, as a template literal does. It is the
  position of an output in its transaction, a small natural number; a JavaScript number
  is exact and prints in plain decimal far beyond that range (up to \<open>2^53\<close>).
\<close>

definition digit_char :: "nat \<Rightarrow> char" where
  "digit_char d = ''0123456789'' ! d"

fun decimal :: "nat \<Rightarrow> string" where
  "decimal n =
     (if n < 10 then [digit_char n]
      else decimal (n div 10) @ [digit_char (n mod 10)])"

declare decimal.simps [simp del]

definition utxoId :: "utxo \<Rightarrow> string" where
  "utxoId u = tx_hash u @ ''#'' @ decimal (output_index u)"

section \<open>mintAndSend\<close>

text \<open>
  The function runs in two uninterrupted stretches. The first, up to its first
  \<^verbatim>\<open>await\<close>, is the claim: the \<^verbatim>\<open>INSERT OR IGNORE\<close>, the return on \<^verbatim>\<open>res.changes === 0\<close>,
  and otherwise the start of the issuance. The second, after the submitted transaction's
  hash has arrived, is the \<^verbatim>\<open>UPDATE\<close>.
\<close>

definition claim :: "string \<Rightarrow> string \<Rightarrow> string \<Rightarrow> state \<Rightarrow> bool \<times> state" where
  "claim payerAddress stakeKey paidTx s =
     (let (changes, rows) = insert_or_ignore_mint stakeKey payerAddress paidTx (mints s) in
      if changes = 0 then (False, s)
      else (True, log_call (Fulfil payerAddress stakeKey paidTx) (s\<lparr>mints := rows\<rparr>)))"

definition record_minted :: "string \<Rightarrow> string \<Rightarrow> string \<Rightarrow> state \<Rightarrow> state" where
  "record_minted txHash name paidTx s = s\<lparr>mints := update_minted txHash name paidTx (mints s)\<rparr>"

text \<open>
  The result is \<open>Inl e\<close> when the function throws, \<open>Inr None\<close> for the bare \<^verbatim>\<open>return\<close> of
  the duplicate branch and \<open>Inr (Some txHash)\<close> for \<^verbatim>\<open>return txHash\<close>.
\<close>

definition mintAndSend ::
    "env \<Rightarrow> string \<Rightarrow> string \<Rightarrow> string \<Rightarrow> state \<Rightarrow> (error + string option) \<times> state" where
  "mintAndSend env payerAddress stakeKey paidTx s =
     (case claim payerAddress stakeKey paidTx s of
        (False, s1) \<Rightarrow> (Inr None, s1)
      | (True, s1) \<Rightarrow>
          (case issue env payerAddress paidTx of
             Inl e \<Rightarrow> (Inl e, s1)
           | Inr (txHash, name) \<Rightarrow> (Inr (Some txHash), record_minted txHash name paidTx s1)))"

section \<open>scanForPayments\<close>

text \<open>
  One iteration of the \<^verbatim>\<open>for\<close> loop. The first component is \<open>Some e\<close> when an exception
  leaves the loop body (it is caught by the outer \<^verbatim>\<open>try\<close>, which ends the pass), and
  \<open>None\<close> when the loop goes on to the next deposit. An exception of \<^verbatim>\<open>mintAndSend\<close> is
  caught inside the body: it is logged and the loop goes on.
\<close>

definition process_utxo :: "env \<Rightarrow> utxo \<Rightarrow> state \<Rightarrow> error option \<times> state" where
  "process_utxo env u s =
     (if utxoId u \<in> set (seen_utxos s) then (None, s)
      else
        (case qualifies (PRICE env) u of
           Inl e \<Rightarrow> (Some e, s)
         | Inr False \<Rightarrow> (None, mark_seen (utxoId u) s)
         | Inr True \<Rightarrow>
             (let s1 = log_call (TxUtxos (tx_hash u)) s in
              case fetch_tx_utxos env (tx_hash u) of
                Inl e \<Rightarrow> (Some e, s1)
              | Inr txUtxos \<Rightarrow>
                  (case payerAddr txUtxos of
                     None \<Rightarrow> (None, mark_seen (utxoId u) s1)
                   | Some payer \<Rightarrow>
                       (case getStakeKeyFromAddr env payer of
                          None \<Rightarrow> (None, mark_seen (utxoId u) s1)
                        | Some stakeKey \<Rightarrow>
                            if stakeKey \<in> set (map stake_key (mints s1))
                            then (None, mark_seen (utxoId u) s1)
                            else
                              (case mintAndSend env payer stakeKey (tx_hash u) s1 of
                                 (Inl e, s2) \<Rightarrow> (None, s2)
                               | (Inr mintedTx, s2) \<Rightarrow> (None, mark_seen (utxoId u) s2)))))))"

fun scan_loop :: "env \<Rightarrow> utxo list \<Rightarrow> state \<Rightarrow> error option \<times> state" where
  "scan_loop env [] s = (None, s)"
| "scan_loop env (u # us) s =
     (case process_utxo env u s of
        (Some e, s') \<Rightarrow> (Some e, s')
      | (None, s') \<Rightarrow> scan_loop env us s')"

definition scanForPayments :: "env \<Rightarrow> state \<Rightarrow> state" where
  "scanForPayments env s =
     (case address_utxos env of
        Inl e \<Rightarrow> s
      | Inr utxos \<Rightarrow> snd (scan_loop env utxos s))"

text \<open>Passes run one after another, each with the answers the collaborators give then.\<close>

fun passes :: "env list \<Rightarrow> state \<Rightarrow> state" where
  "passes [] s = s"
| "passes (env # envs) s = passes envs (scanForPayments env s)"

section \<open>Interleaved calls of mintAndSend\<close>

text \<open>
  Several calls of \<^verbatim>\<open>mintAndSend\<close> (of one pass, of overlapping passes, of several server
  processes on one database file) interleave at the granularity of the two stretches:
  a run is any sequence of claims and fulfilment updates.
\<close>

datatype event =
  Claim string string string
| Minted string string string

fun run_event :: "event \<Rightarrow> state \<Rightarrow> state" where
  "run_event (Claim payerAddress stakeKey paidTx) s = snd (claim payerAddress stakeKey paidTx s)"
| "run_event (Minted txHash name paidTx) s = record_minted txHash name paidTx s"

fun run_events :: "event list \<Rightarrow> state \<Rightarrow> state" where
  "run_events [] s = s"
| "run_events (ev # evs) s = run_events evs (run_event ev s)"

text \<open>The number of claims for the identity \<open>k\<close> that insert a row in the course of a run.\<close>

fun claims_won :: "string \<Rightarrow> event list \<Rightarrow> state \<Rightarrow> nat" where
  "claims_won k [] s = 0"
| "claims_won k (Claim payerAddress stakeKey paidTx # evs) s =
     (if stakeKey = k \<and> fst (claim payerAddress stakeKey paidTx s) then 1 else 0)
       + claims_won k evs (run_event (Claim payerAddress stakeKey paidTx) s)"
| "claims_won k (Minted txHash name paidTx # evs) s =
     claims_won k evs (run_event (Minted txHash name paidTx) s)"

text \<open>The rows of an identity, and the issuances started (for one identity, and all).\<close>

definition rows_for :: "string \<Rightarrow> state \<Rightarrow> mint_row list" where
  "rows_for k s = filter (\<lambda>r. stake_key r = k) (mints s)"

fun is_fulfil_for :: "string \<Rightarrow> call \<Rightarrow> bool" where
  "is_fulfil_for k (Fulfil payerAddress stakeKey paidTx) = (stakeKey = k)"
| "is_fulfil_for k (TxUtxos t) = False"

definition fulfilments_for :: "string \<Rightarrow> state \<Rightarrow> nat" where
  "fulfilments_for k s = length (filter (is_fulfil_for k) (calls s))"

fun is_fulfil :: "call \<Rightarrow> bool" where
  "is_fulfil (Fulfil payerAddress stakeKey paidTx) = True"
| "is_fulfil (TxUtxos t) = False"

definition fulfilments :: "state \<Rightarrow> call list" where
  "fulfilments s = filter is_fulfil (calls s)"

section \<open>A transaction fixes its payer\<close>

text \<open>
  \<^verbatim>\<open>scanForPayments\<close> is the only caller of \<^verbatim>\<open>mintAndSend\<close>, and the stake key it passes
  is computed from the first input of the transaction \<^verbatim>\<open>u.tx_hash\<close> that it passes as
  \<^verbatim>\<open>paidTx\<close>. A transaction id is the hash of the transaction, inputs included, and the
  address parser is a function, so the ledger fixes one identity per transaction id:
  \<open>owner\<close>. An environment resolves by \<open>owner\<close> when every input lookup that answers and
  yields a stake key yields the owner of the transaction; a claim is attributed when it
  is made for the owner of its paid transaction.
\<close>

definition resolves_by :: "(string \<Rightarrow> string) \<Rightarrow> env \<Rightarrow> bool" where
  "resolves_by owner env =
     (\<forall>t r a k. fetch_tx_utxos env t = Inr r \<longrightarrow> payerAddr r = Some a \<longrightarrow>
        getStakeKeyFromAddr env a = Some k \<longrightarrow> k = owner t)"

fun attributed_event :: "(string \<Rightarrow> string) \<Rightarrow> event \<Rightarrow> bool" where
  "attributed_event owner (Claim payerAddress stakeKey paidTx) = (stakeKey = owner paidTx)"
| "attributed_event owner (Minted txHash name paidTx) = True"

text \<open>
  What holds of the tables the server can build: one row per identity at most, every row
  made for the owner of its paid transaction, and one issuance started per row.
\<close>

definition ledger_inv :: "(string \<Rightarrow> string) \<Rightarrow> state \<Rightarrow> bool" where
  "ledger_inv owner s =
     (distinct (map stake_key (mints s)) \<and>
      list_all (\<lambda>r. stake_key r = owner (paid_tx r)) (mints s) \<and>
      (\<forall>k. fulfilments_for k s = length (rows_for k s)))"

section \<open>Sample data\<close>

definition empty_state :: state where
  "empty_state = \<lparr>mints = [], seen_utxos = [], calls = []\<rparr>"

definition deposit_a :: utxo where
  "deposit_a = \<lparr>tx_hash = ''aa'', output_index = 0,
                 amount = [\<lparr>unit = ''lovelace'', quantity = ''1000000''\<rparr>]\<rparr>"

definition deposit_b :: utxo where
  "deposit_b = \<lparr>tx_hash = ''bb'', output_index = 1,
                 amount = [\<lparr>unit = ''lovelace'', quantity = ''1000000''\<rparr>,
                           \<lparr>unit = ''token'', quantity = ''1''\<rparr>]\<rparr>"

definition deposit_c :: utxo where
  "deposit_c = \<lparr>tx_hash = ''cc'', output_index = 0,
                 amount = [\<lparr>unit = ''lovelace'', quantity = ''1000000''\<rparr>]\<rparr>"

definition first_input_addr1 :: tx_utxos where
  "first_input_addr1 = \<lparr>inputs = Some [\<lparr>address = Some ''addr1''\<rparr>]\<rparr>"

definition deposit_d :: utxo where
  "deposit_d = \<lparr>tx_hash = ''dd'', output_index = 0,
                 amount = [\<lparr>unit = ''lovelace'', quantity = ''1000000''\<rparr>]\<rparr>"

text \<open>
  A collaborator that answers: every transaction's first input is at \<open>addr1\<close>, except
  that of \<open>cc\<close>, which has no inputs; \<open>addr1\<close> carries the staking credential \<open>stake1\<close>;
  the issuance succeeds.
\<close>

definition env_ok :: env where
  "env_ok = \<lparr>PRICE = 1000000,
             address_utxos = Inr [deposit_a, deposit_b],
             fetch_tx_utxos = (\<lambda>t. if t = ''cc'' then Inr \<lparr>inputs = Some []\<rparr>
                                     else Inr first_input_addr1),
             getAddressDetails = (\<lambda>a. Inr \<lparr>stakeCredential = Some \<lparr>hash = ''stake1''\<rparr>\<rparr>),
             issue = (\<lambda>p t. Inr (''mint1'', ''Design_1''))\<rparr>"

text \<open>The same with an issuance that throws, and with an input lookup that throws.\<close>

definition env_mint_fails :: env where
  "env_mint_fails = env_ok\<lparr>issue := (\<lambda>p t. Inl LucidError)\<rparr>"

definition env_lookup_fails :: env where
  "env_lookup_fails = env_ok\<lparr>fetch_tx_utxos := (\<lambda>t. Inl BlockfrostError)\<rparr>"

definition state_seen_a :: state where
  "state_seen_a = \<lparr>mints = [], seen_utxos = [''aa#0''], calls = []\<rparr>"

text \<open>A table in which \<open>stake2\<close> has claimed with the transaction \<open>aa\<close>.\<close>

definition state_claimed :: state where
  "state_claimed = \<lparr>mints = [\<lparr>stake_key = ''stake2'', payer_address = ''addr2'',
                               paid_tx = ''aa'', minted_tx = None, asset_name = None\<rparr>],
                    seen_utxos = [], calls = []\<rparr>"

section \<open>Facts about the two tables\<close>

lemma update_minted_twice:
  "update_minted txHash name paidTx (update_minted txHash name paidTx rows)
     = update_minted txHash name paidTx rows"
  by (induction rows) (simp_all add: update_minted_def)

lemma mark_seen_set [simp]: "set (seen_utxos (mark_seen i s)) = insert i (set (seen_utxos s))"
  by (auto simp: mark_seen_def)

lemma mark_seen_mints [simp]: "mints (mark_seen i s) = mints s"
  by (simp add: mark_seen_def)

lemma mark_seen_calls [simp]: "calls (mark_seen i s) = calls s"
  by (simp add: mark_seen_def)

lemma mark_seen_distinct [simp]: "distinct (seen_utxos (mark_seen i s)) = distinct (seen_utxos s)"
  by (simp add: mark_seen_def)

lemma mark_seen_new: "i \<notin> set (seen_utxos s) \<Longrightarrow> seen_utxos (mark_seen i s) = seen_utxos s @ [i]"
  by (simp add: mark_seen_def)

lemma log_call_simps [simp]:
  "mints (log_call c s) = mints s"
  "seen_utxos (log_call c s) = seen_utxos s"
  "calls (log_call c s) = calls s @ [c]"
  by (simp_all add: log_call_def)

lemma update_minted_fresh:
  "paidTx \<notin> set (map paid_tx rows) \<Longrightarrow> update_minted txHash name paidTx rows = rows"
  by (induction rows) (auto simp: update_minted_def)

lemma update_minted_append:
  "update_minted txHash name paidTx (rows @ rows') =
     update_minted txHash name paidTx rows @ update_minted txHash name paidTx rows'"
  by (simp add: update_minted_def)

lemma update_minted_keys [simp]:
  "map stake_key (update_minted txHash name paidTx rows) = map stake_key rows"
  "map paid_tx (update_minted txHash name paidTx rows) = map paid_tx rows"
  by (induction rows) (simp_all add: update_minted_def)

lemma pending_row_simps [simp]:
  "stake_key (pending_row k p t) = k"
  "payer_address (pending_row k p t) = p"
  "paid_tx (pending_row k p t) = t"
  "minted_tx (pending_row k p t) = None"
  "asset_name (pending_row k p t) = None"
  by (simp_all add: pending_row_def)

section \<open>Facts about claim and mintAndSend\<close>

lemma claim_duplicate:
  "stakeKey \<in> set (map stake_key (mints s)) \<or> paidTx \<in> set (map paid_tx (mints s))
   \<Longrightarrow> claim payerAddress stakeKey paidTx s = (False, s)"
  by (simp add: claim_def insert_or_ignore_mint_def)

lemma claim_fresh:
  "stakeKey \<notin> set (map stake_key (mints s)) \<Longrightarrow> paidTx \<notin> set (map paid_tx (mints s))
   \<Longrightarrow> claim payerAddress stakeKey paidTx s =
       (True, log_call (Fulfil payerAddress stakeKey paidTx)
                (s\<lparr>mints := mints s @ [pending_row stakeKey payerAddress paidTx]\<rparr>))"
  by (simp add: claim_def insert_or_ignore_mint_def)

lemma mintAndSend_duplicate:
  "stakeKey \<in> set (map stake_key (mints s)) \<or> paidTx \<in> set (map paid_tx (mints s))
   \<Longrightarrow> mintAndSend env payerAddress stakeKey paidTx s = (Inr None, s)"
  by (simp add: mintAndSend_def claim_duplicate)

lemma mintAndSend_throws:
  "stakeKey \<notin> set (map stake_key (mints s)) \<Longrightarrow> paidTx \<notin> set (map paid_tx (mints s))
   \<Longrightarrow> issue env payerAddress paidTx = Inl e
   \<Longrightarrow> mintAndSend env payerAddress stakeKey paidTx s =
       (Inl e, log_call (Fulfil payerAddress stakeKey paidTx)
                (s\<lparr>mints := mints s @ [pending_row stakeKey payerAddress paidTx]\<rparr>))"
  by (simp add: mintAndSend_def claim_fresh)

lemma mintAndSend_minted:
  "stakeKey \<notin> set (map stake_key (mints s)) \<Longrightarrow> paidTx \<notin> set (map paid_tx (mints s))
   \<Longrightarrow> issue env payerAddress paidTx = Inr (txHash, name)
   \<Longrightarrow> mintAndSend env payerAddress stakeKey paidTx s =
       (Inr (Some txHash),
        log_call (Fulfil payerAddress stakeKey paidTx)
          (s\<lparr>mints := mints s @ [(pending_row stakeKey payerAddress paidTx)
                                    \<lparr>minted_tx := Some txHash, asset_name := Some name\<rparr>]\<rparr>))"
  by (simp add: mintAndSend_def claim_fresh record_minted_def update_minted_append
      update_minted_fresh log_call_def)
     (simp add: update_minted_def)

lemma mintAndSend_frame:
  "\<exists>rs. mints (snd (mintAndSend env p k t s)) = mints s @ rs \<and> set (map stake_key rs) \<subseteq> {k}"
  "seen_utxos (snd (mintAndSend env p k t s)) = seen_utxos s"
proof -
  consider (dup) "k \<in> set (map stake_key (mints s)) \<or> t \<in> set (map paid_tx (mints s))"
    | (throws) e where "k \<notin> set (map stake_key (mints s))" "t \<notin> set (map paid_tx (mints s))"
        "issue env p t = Inl e"
    | (minted) h n where "k \<notin> set (map stake_key (mints s))" "t \<notin> set (map paid_tx (mints s))"
        "issue env p t = Inr (h, n)"
    by (cases "issue env p t") auto
  then have "(\<exists>rs. mints (snd (mintAndSend env p k t s)) = mints s @ rs \<and> set (map stake_key rs) \<subseteq> {k})
      \<and> seen_utxos (snd (mintAndSend env p k t s)) = seen_utxos s"
  proof cases
    case dup
    then show ?thesis by (simp add: mintAndSend_duplicate)
  next
    case throws
    then show ?thesis by (simp add: mintAndSend_throws)
  next
    case minted
    then show ?thesis by (simp add: mintAndSend_minted)
  qed
  then show "\<exists>rs. mints (snd (mintAndSend env p k t s)) = mints s @ rs \<and> set (map stake_key rs) \<subseteq> {k}"
    and "seen_utxos (snd (mintAndSend env p k t s)) = seen_utxos s" by blast+
qed

section \<open>The branches of the loop body\<close>

lemma process_utxo_seen:
  "utxoId u \<in> set (seen_utxos s) \<Longrightarrow> process_utxo env u s = (None, s)"
  by (simp add: process_utxo_def)

lemma process_utxo_unparsed:
  "utxoId u \<notin> set (seen_utxos s) \<Longrightarrow> qualifies (PRICE env) u = Inl e
   \<Longrightarrow> process_utxo env u s = (Some e, s)"
  by (simp add: process_utxo_def)

lemma process_utxo_rejected:
  "utxoId u \<notin> set (seen_utxos s) \<Longrightarrow> qualifies (PRICE env) u = Inr False
   \<Longrightarrow> process_utxo env u s = (None, mark_seen (utxoId u) s)"
  by (simp add: process_utxo_def)

lemma process_utxo_lookup_throws:
  "utxoId u \<notin> set (seen_utxos s) \<Longrightarrow> qualifies (PRICE env) u = Inr True
   \<Longrightarrow> fetch_tx_utxos env (tx_hash u) = Inl e
   \<Longrightarrow> process_utxo env u s = (Some e, log_call (TxUtxos (tx_hash u)) s)"
  by (simp add: process_utxo_def)

lemma process_utxo_no_payer:
  "utxoId u \<notin> set (seen_utxos s) \<Longrightarrow> qualifies (PRICE env) u = Inr True
   \<Longrightarrow> fetch_tx_utxos env (tx_hash u) = Inr r \<Longrightarrow> payerAddr r = None
   \<Longrightarrow> process_utxo env u s = (None, mark_seen (utxoId u) (log_call (TxUtxos (tx_hash u)) s))"
  by (simp add: process_utxo_def)

lemma process_utxo_no_stake:
  "utxoId u \<notin> set (seen_utxos s) \<Longrightarrow> qualifies (PRICE env) u = Inr True
   \<Longrightarrow> fetch_tx_utxos env (tx_hash u) = Inr r \<Longrightarrow> payerAddr r = Some a
   \<Longrightarrow> getStakeKeyFromAddr env a = None
   \<Longrightarrow> process_utxo env u s = (None, mark_seen (utxoId u) (log_call (TxUtxos (tx_hash u)) s))"
  by (simp add: process_utxo_def)

lemma process_utxo_already:
  "utxoId u \<notin> set (seen_utxos s) \<Longrightarrow> qualifies (PRICE env) u = Inr True
   \<Longrightarrow> fetch_tx_utxos env (tx_hash u) = Inr r \<Longrightarrow> payerAddr r = Some a
   \<Longrightarrow> getStakeKeyFromAddr env a = Some k \<Longrightarrow> k \<in> set (map stake_key (mints s))
   \<Longrightarrow> process_utxo env u s = (None, mark_seen (utxoId u) (log_call (TxUtxos (tx_hash u)) s))"
  by (simp add: process_utxo_def)

lemma process_utxo_mint:
  "utxoId u \<notin> set (seen_utxos s) \<Longrightarrow> qualifies (PRICE env) u = Inr True
   \<Longrightarrow> fetch_tx_utxos env (tx_hash u) = Inr r \<Longrightarrow> payerAddr r = Some a
   \<Longrightarrow> getStakeKeyFromAddr env a = Some k \<Longrightarrow> k \<notin> set (map stake_key (mints s))
   \<Longrightarrow> process_utxo env u s =
        (case mintAndSend env a k (tx_hash u) (log_call (TxUtxos (tx_hash u)) s) of
           (Inl e, s2) \<Rightarrow> (None, s2)
         | (Inr mintedTx, s2) \<Rightarrow> (None, mark_seen (utxoId u) s2))"
  by (simp add: process_utxo_def)

text \<open>What every branch does to the tables.\<close>

lemma process_utxo_frame:
  "(\<exists>rs. mints (snd (process_utxo env u s)) = mints s @ rs) \<and>
   (seen_utxos (snd (process_utxo env u s)) = seen_utxos s \<or>
    utxoId u \<notin> set (seen_utxos s) \<and>
    seen_utxos (snd (process_utxo env u s)) = seen_utxos s @ [utxoId u])"
proof (cases "utxoId u \<in> set (seen_utxos s)")
  case True
  then show ?thesis by (simp add: process_utxo_seen)
next
  case unseen: False
  show ?thesis
  proof (cases "qualifies (PRICE env) u")
    case (Inl e)
    with unseen show ?thesis by (simp add: process_utxo_unparsed)
  next
    case (Inr b)
    show ?thesis
    proof (cases b)
      case False
      with unseen Inr show ?thesis by (simp add: process_utxo_rejected mark_seen_new)
    next
      case True
      with Inr have q: "qualifies (PRICE env) u = Inr True" by simp
      show ?thesis
      proof (cases "fetch_tx_utxos env (tx_hash u)")
        case (Inl e)
        with unseen q show ?thesis by (simp add: process_utxo_lookup_throws)
      next
        case r: (Inr r)
        show ?thesis
        proof (cases "payerAddr r")
          case None
          with unseen q r show ?thesis by (simp add: process_utxo_no_payer mark_seen_new)
        next
          case a: (Some a)
          show ?thesis
          proof (cases "getStakeKeyFromAddr env a")
            case None
            with unseen q r a show ?thesis by (simp add: process_utxo_no_stake mark_seen_new)
          next
            case k: (Some k)
            show ?thesis
            proof (cases "k \<in> set (map stake_key (mints s))")
              case True
              with unseen q r a k show ?thesis by (simp add: process_utxo_already mark_seen_new)
            next
              case False
              let ?s1 = "log_call (TxUtxos (tx_hash u)) s"
              obtain res s2 where m: "mintAndSend env a k (tx_hash u) ?s1 = (res, s2)"
                by (cases "mintAndSend env a k (tx_hash u) ?s1")
              from mintAndSend_frame [where env=env and p=a and k=k and t="tx_hash u" and s="?s1"] m
              have f: "\<exists>rs. mints s2 = mints s @ rs" "seen_utxos s2 = seen_utxos s"
                by auto
              from unseen q r a k False m have
                "process_utxo env u s = (case res of Inl e \<Rightarrow> (None, s2) | Inr x \<Rightarrow> (None, mark_seen (utxoId u) s2))"
                by (simp add: process_utxo_mint split: sum.splits)
              with f unseen show ?thesis
                by (cases res) (simp_all add: mark_seen_new)
            qed
          qed
        qed
      qed
    qed
  qed
qed

lemma process_utxo_mints: "\<exists>rs. mints (snd (process_utxo env u s)) = mints s @ rs"
  using process_utxo_frame by blast

lemma process_utxo_seen_mono: "set (seen_utxos s) \<subseteq> set (seen_utxos (snd (process_utxo env u s)))"
  using process_utxo_frame [of env u s] by auto

lemma process_utxo_distinct:
  "distinct (seen_utxos s) \<Longrightarrow> distinct (seen_utxos (snd (process_utxo env u s)))"
  using process_utxo_frame [of env u s] by auto

section \<open>The loop, the pass, the passes\<close>

lemma scan_loop_frame:
  "(\<exists>rs. mints (snd (scan_loop env us s)) = mints s @ rs) \<and>
   set (seen_utxos s) \<subseteq> set (seen_utxos (snd (scan_loop env us s))) \<and>
   (distinct (seen_utxos s) \<longrightarrow> distinct (seen_utxos (snd (scan_loop env us s))))"
proof (induction us arbitrary: s)
  case Nil
  then show ?case by simp
next
  case (Cons u us)
  obtain r s' where p: "process_utxo env u s = (r, s')" by (cases "process_utxo env u s")
  have f: "\<exists>rs. mints s' = mints s @ rs" "set (seen_utxos s) \<subseteq> set (seen_utxos s')"
    "distinct (seen_utxos s) \<longrightarrow> distinct (seen_utxos s')"
    using process_utxo_mints [of env u s] process_utxo_seen_mono [where env=env and u=u and s=s]
      process_utxo_distinct [where env=env and u=u and s=s] p by auto
  show ?case
  proof (cases r)
    case None
    with p have "scan_loop env (u # us) s = scan_loop env us s'" by simp
    with Cons.IH [of s'] f show ?thesis by auto
  next
    case (Some e)
    with p f show ?thesis by simp
  qed
qed

lemma scanForPayments_frame:
  "(\<exists>rs. mints (scanForPayments env s) = mints s @ rs) \<and>
   set (seen_utxos s) \<subseteq> set (seen_utxos (scanForPayments env s)) \<and>
   (distinct (seen_utxos s) \<longrightarrow> distinct (seen_utxos (scanForPayments env s)))"
  using scan_loop_frame [of env _ s] by (simp add: scanForPayments_def split: sum.splits)

lemma passes_frame:
  "(\<exists>rs. mints (passes envs s) = mints s @ rs) \<and>
   set (seen_utxos s) \<subseteq> set (seen_utxos (passes envs s)) \<and>
   (distinct (seen_utxos s) \<longrightarrow> distinct (seen_utxos (passes envs s)))"
proof (induction envs arbitrary: s)
  case Nil
  then show ?case by simp
next
  case (Cons env envs)
  from scanForPayments_frame [of env s] Cons.IH [of "scanForPayments env s"]
  show ?case by auto
qed

lemma scan_loop_append:
  "scan_loop env (us @ vs) s =
     (case scan_loop env us s of (Some e, s') \<Rightarrow> (Some e, s') | (None, s') \<Rightarrow> scan_loop env vs s')"
  by (induction us arbitrary: s) (auto split: prod.splits option.splits)

text \<open>The program never reads the call log: two states with the same tables fare alike.\<close>

lemma claim_tables:
  assumes "mints s = mints s'" "seen_utxos s = seen_utxos s'"
  shows "fst (claim p k t s) = fst (claim p k t s') \<and>
         mints (snd (claim p k t s)) = mints (snd (claim p k t s')) \<and>
         seen_utxos (snd (claim p k t s)) = seen_utxos (snd (claim p k t s'))"
  using assms by (simp add: claim_def insert_or_ignore_mint_def)


lemma mark_seen_tables:
  "mints s = mints s' \<Longrightarrow> seen_utxos s = seen_utxos s' \<Longrightarrow>
   mints (mark_seen i s) = mints (mark_seen i s') \<and>
   seen_utxos (mark_seen i s) = seen_utxos (mark_seen i s')"
  by (simp add: mark_seen_def)


lemma fulfilments_simps [simp]:
  "fulfilments (mark_seen i s) = fulfilments s"
  "fulfilments (log_call (TxUtxos t) s) = fulfilments s"
  "fulfilments (log_call (Fulfil p k t) s) = fulfilments s @ [Fulfil p k t]"
  "fulfilments (s\<lparr>mints := rows\<rparr>) = fulfilments s"
  by (simp_all add: fulfilments_def)

lemma getStakeKeyFromAddr_throws:
  "getAddressDetails env a = Inl e \<Longrightarrow> getStakeKeyFromAddr env a = None"
  by (simp add: getStakeKeyFromAddr_def)

lemma passes_seen_mono: "i \<in> set (seen_utxos s) \<Longrightarrow> i \<in> set (seen_utxos (passes envs s))"
  using passes_frame [of envs s] by auto

lemma passes_keys_mono:
  "k \<in> set (map stake_key (mints s)) \<Longrightarrow> k \<in> set (map stake_key (mints (passes envs s)))"
  "t \<in> set (map paid_tx (mints s)) \<Longrightarrow> t \<in> set (map paid_tx (mints (passes envs s)))"
  using passes_frame [of envs s] by auto

section \<open>Facts about interleaved runs\<close>

lemma fulfilments_for_simps [simp]:
  "fulfilments_for k (log_call (Fulfil p k' t) s) = fulfilments_for k s + (if k' = k then 1 else 0)"
  "fulfilments_for k (s\<lparr>mints := rows\<rparr>) = fulfilments_for k s"
  "fulfilments_for k (record_minted h n t s) = fulfilments_for k s"
  by (simp_all add: fulfilments_for_def record_minted_def)

lemma record_minted_keys [simp]:
  "map stake_key (mints (record_minted h n t s)) = map stake_key (mints s)"
  "map paid_tx (mints (record_minted h n t s)) = map paid_tx (mints s)"
  by (simp_all add: record_minted_def)

lemma claim_cases:
  obtains (lost) "claim p k t s = (False, s)"
      "k \<in> set (map stake_key (mints s)) \<or> t \<in> set (map paid_tx (mints s))"
    | (won) "claim p k t s = (True, log_call (Fulfil p k t)
                (s\<lparr>mints := mints s @ [pending_row k p t]\<rparr>))"
      "k \<notin> set (map stake_key (mints s))" "t \<notin> set (map paid_tx (mints s))"
  using claim_duplicate [of k s t p] claim_fresh [of k s t p] by blast

lemma run_event_distinct:
  "distinct (map stake_key (mints s)) \<Longrightarrow> distinct (map stake_key (mints (run_event ev s)))"
proof (cases ev)
  case (Claim p k t)
  then show "distinct (map stake_key (mints s)) \<Longrightarrow> ?thesis"
    by (cases rule: claim_cases [of p k t s]) auto
next
  case (Minted h n t)
  then show "distinct (map stake_key (mints s)) \<Longrightarrow> ?thesis" by simp
qed

lemma run_events_distinct:
  "distinct (map stake_key (mints s)) \<Longrightarrow> distinct (map stake_key (mints (run_events evs s)))"
  by (induction evs arbitrary: s) (simp_all add: run_event_distinct)

lemma claims_won_bound:
  "claims_won k evs s \<le> (if k \<in> set (map stake_key (mints s)) then 0 else 1)"
proof (induction evs arbitrary: s)
  case Nil
  then show ?case by simp
next
  case (Cons ev evs)
  show ?case
  proof (cases ev)
    case (Claim p k' t)
    show ?thesis
    proof (cases rule: claim_cases [of p k' t s])
      case lost
      with Claim Cons.IH [of s] show ?thesis by simp
    next
      case won
      let ?s1 = "log_call (Fulfil p k' t) (s\<lparr>mints := mints s @ [pending_row k' p t]\<rparr>)"
      from Cons.IH [of ?s1] won Claim show ?thesis by (auto split: if_splits)
    qed
  next
    case (Minted h n t)
    with Cons.IH [of "record_minted h n t s"] show ?thesis by simp
  qed
qed

lemma fulfilments_for_run:
  "fulfilments_for k (run_events evs s) = fulfilments_for k s + claims_won k evs s"
proof (induction evs arbitrary: s)
  case Nil
  then show ?case by simp
next
  case (Cons ev evs)
  show ?case
  proof (cases ev)
    case (Claim p k' t)
    show ?thesis
      by (cases rule: claim_cases [of p k' t s]) (simp_all add: Claim Cons.IH)
  next
    case (Minted h n t)
    then show ?thesis by (simp add: Cons.IH)
  qed
qed

lemma rows_for_length:
  "distinct (map stake_key rows) \<Longrightarrow> length (filter (\<lambda>r. stake_key r = k) rows) \<le> 1"
proof (induction rows)
  case Nil
  then show ?case by simp
next
  case (Cons r rows)
  show ?case
  proof (cases "stake_key r = k")
    case True
    with Cons.prems have "\<forall>x \<in> set rows. stake_key x \<noteq> k" by (auto simp: image_iff)
    then have "filter (\<lambda>r. stake_key r = k) rows = []" by (simp add: filter_empty_conv)
    with True show ?thesis by simp
  next
    case False
    with Cons show ?thesis by simp
  qed
qed

section \<open>The tables the server can build\<close>

lemma fulfilments_for_other [simp]:
  "fulfilments_for k (mark_seen i s) = fulfilments_for k s"
  "fulfilments_for k (log_call (TxUtxos t) s) = fulfilments_for k s"
  by (simp_all add: fulfilments_for_def)

lemma rows_for_simps [simp]:
  "rows_for k (mark_seen i s) = rows_for k s"
  "rows_for k (log_call c s) = rows_for k s"
  by (simp_all add: rows_for_def)

lemma rows_for_update_minted:
  "length (filter (\<lambda>r. stake_key r = k) (update_minted h n t rows))
     = length (filter (\<lambda>r. stake_key r = k) rows)"
  by (induction rows) (simp_all add: update_minted_def)

lemma attributed_update_minted:
  "list_all (\<lambda>r. stake_key r = owner (paid_tx r)) (update_minted h n t rows)
     = list_all (\<lambda>r. stake_key r = owner (paid_tx r)) rows"
  by (induction rows) (simp_all add: update_minted_def)

lemma ledger_inv_empty: "ledger_inv owner empty_state"
  by (simp add: ledger_inv_def empty_state_def fulfilments_for_def rows_for_def)

lemma ledger_inv_mark_seen [simp]: "ledger_inv owner (mark_seen i s) = ledger_inv owner s"
  by (simp add: ledger_inv_def)

lemma ledger_inv_lookup [simp]: "ledger_inv owner (log_call (TxUtxos t) s) = ledger_inv owner s"
  by (simp add: ledger_inv_def)

lemma ledger_inv_claimed:
  assumes "ledger_inv owner s" "k \<notin> set (map stake_key (mints s))" "k = owner t"
    and "stake_key r = k" "paid_tx r = t"
  shows "ledger_inv owner (log_call (Fulfil p k t) (s\<lparr>mints := mints s @ [r]\<rparr>))"
  using assms by (auto simp: ledger_inv_def rows_for_def)

lemma ledger_inv_record_minted:
  "ledger_inv owner (record_minted h n t s) = ledger_inv owner s"
  by (simp add: ledger_inv_def record_minted_def rows_for_def rows_for_update_minted
      attributed_update_minted fulfilments_for_def)

text \<open>On such tables a taken paid transaction id means a taken identity.\<close>

lemma ledger_inv_paid_tx:
  assumes "ledger_inv owner s" "t \<in> set (map paid_tx (mints s))"
  shows "owner t \<in> set (map stake_key (mints s))"
proof -
  from assms(2) obtain r where r: "r \<in> set (mints s)" "paid_tx r = t" by auto
  with assms(1) have "stake_key r = owner t" by (auto simp: ledger_inv_def list_all_iff)
  with r show ?thesis by force
qed

lemma claim_attributed:
  assumes "ledger_inv owner s" "k = owner t"
  shows "fst (claim p k t s) = (k \<notin> set (map stake_key (mints s)))"
proof (cases rule: claim_cases [of p k t s])
  case lost
  with assms ledger_inv_paid_tx [of owner s t] show ?thesis by auto
next
  case won
  then show ?thesis by simp
qed

lemma run_event_ledger_inv:
  assumes "ledger_inv owner s" "attributed_event owner ev"
  shows "ledger_inv owner (run_event ev s)"
proof (cases ev)
  case (Claim p k t)
  with assms(2) have k: "k = owner t" by simp
  show ?thesis
  proof (cases rule: claim_cases [of p k t s])
    case lost
    with Claim assms(1) show ?thesis by simp
  next
    case won
    with Claim assms(1) k show ?thesis by (simp add: ledger_inv_claimed)
  qed
next
  case (Minted h n t)
  with assms(1) show ?thesis by (simp add: ledger_inv_record_minted)
qed

lemma run_events_ledger_inv:
  "ledger_inv owner s \<Longrightarrow> list_all (attributed_event owner) evs
   \<Longrightarrow> ledger_inv owner (run_events evs s)"
  by (induction evs arbitrary: s) (simp_all add: run_event_ledger_inv)

lemma mintAndSend_ledger_inv:
  assumes "ledger_inv owner s" "k = owner t"
  shows "ledger_inv owner (snd (mintAndSend env p k t s))"
proof -
  consider (dup) "k \<in> set (map stake_key (mints s)) \<or> t \<in> set (map paid_tx (mints s))"
    | (throws) e where "k \<notin> set (map stake_key (mints s))" "t \<notin> set (map paid_tx (mints s))"
        "issue env p t = Inl e"
    | (minted) h n where "k \<notin> set (map stake_key (mints s))" "t \<notin> set (map paid_tx (mints s))"
        "issue env p t = Inr (h, n)"
    by (cases "issue env p t") auto
  then show ?thesis
  proof cases
    case dup
    with assms show ?thesis by (simp add: mintAndSend_duplicate)
  next
    case throws
    with assms show ?thesis by (simp add: mintAndSend_throws ledger_inv_claimed)
  next
    case minted
    with assms show ?thesis by (simp add: mintAndSend_minted ledger_inv_claimed)
  qed
qed

lemma process_utxo_ledger_inv:
  assumes inv: "ledger_inv owner s" and env: "resolves_by owner env"
  shows "ledger_inv owner (snd (process_utxo env u s))"
proof (cases "utxoId u \<in> set (seen_utxos s)")
  case True
  with inv show ?thesis by (simp add: process_utxo_seen)
next
  case unseen: False
  show ?thesis
  proof (cases "qualifies (PRICE env) u")
    case (Inl e)
    with unseen inv show ?thesis by (simp add: process_utxo_unparsed)
  next
    case (Inr b)
    show ?thesis
    proof (cases b)
      case False
      with unseen Inr inv show ?thesis by (simp add: process_utxo_rejected)
    next
      case True
      with Inr have q: "qualifies (PRICE env) u = Inr True" by simp
      show ?thesis
      proof (cases "fetch_tx_utxos env (tx_hash u)")
        case (Inl e)
        with unseen q inv show ?thesis by (simp add: process_utxo_lookup_throws)
      next
        case r: (Inr r)
        show ?thesis
        proof (cases "payerAddr r")
          case None
          with unseen q r inv show ?thesis by (simp add: process_utxo_no_payer)
        next
          case a: (Some a)
          show ?thesis
          proof (cases "getStakeKeyFromAddr env a")
            case None
            with unseen q r a inv show ?thesis by (simp add: process_utxo_no_stake)
          next
            case k: (Some k)
            from env r a k have owner: "k = owner (tx_hash u)"
              by (simp add: resolves_by_def)
            show ?thesis
            proof (cases "k \<in> set (map stake_key (mints s))")
              case True
              with unseen q r a k inv show ?thesis by (simp add: process_utxo_already)
            next
              case False
              let ?s1 = "log_call (TxUtxos (tx_hash u)) s"
              obtain res s2 where m: "mintAndSend env a k (tx_hash u) ?s1 = (res, s2)"
                by (cases "mintAndSend env a k (tx_hash u) ?s1")
              from inv have "ledger_inv owner ?s1" by simp
              from mintAndSend_ledger_inv [OF this owner, of env a] m
              have s2: "ledger_inv owner s2" by simp
              from unseen q r a k False m have
                "process_utxo env u s = (case res of Inl e \<Rightarrow> (None, s2) | Inr x \<Rightarrow> (None, mark_seen (utxoId u) s2))"
                by (simp add: process_utxo_mint split: sum.splits)
              with s2 show ?thesis by (cases res) simp_all
            qed
          qed
        qed
      qed
    qed
  qed
qed

lemma scan_loop_ledger_inv:
  "ledger_inv owner s \<Longrightarrow> resolves_by owner env \<Longrightarrow> ledger_inv owner (snd (scan_loop env us s))"
proof (induction us arbitrary: s)
  case Nil
  then show ?case by simp
next
  case (Cons u us)
  obtain r s' where p: "process_utxo env u s = (r, s')" by (cases "process_utxo env u s")
  with process_utxo_ledger_inv [OF Cons.prems, of u] have "ledger_inv owner s'" by simp
  with Cons.IH [of s'] Cons.prems(2) p show ?case by (cases r) simp_all
qed

lemma scanForPayments_ledger_inv:
  "ledger_inv owner s \<Longrightarrow> resolves_by owner env \<Longrightarrow> ledger_inv owner (scanForPayments env s)"
  by (simp add: scanForPayments_def scan_loop_ledger_inv split: sum.splits)

lemma passes_ledger_inv:
  "ledger_inv owner s \<Longrightarrow> list_all (resolves_by owner) envs \<Longrightarrow> ledger_inv owner (passes envs s)"
  by (induction envs arbitrary: s) (simp_all add: scanForPayments_ledger_inv)

text \<open>On such tables the first attributed claim for a new identity is the one that wins.\<close>

lemma claims_won_attributed:
  assumes "ledger_inv owner s" "list_all (attributed_event owner) evs"
  shows "claims_won k evs s =
     (if k \<notin> set (map stake_key (mints s)) \<and> (\<exists>p t. Claim p k t \<in> set evs) then 1 else 0)"
  using assms
proof (induction evs arbitrary: s)
  case Nil
  then show ?case by simp
next
  case (Cons ev evs)
  from Cons.prems have ev: "attributed_event owner ev" and evs: "list_all (attributed_event owner) evs"
    by simp_all
  have inv': "ledger_inv owner (run_event ev s)"
    using Cons.prems(1) ev by (rule run_event_ledger_inv)
  note IH = Cons.IH [OF inv' evs]
  show ?case
  proof (cases ev)
    case (Claim p k' t)
    with ev have k': "k' = owner t" by simp
    show ?thesis
    proof (cases rule: claim_cases [of p k' t s])
      case lost
      with Cons.prems(1) k' ledger_inv_paid_tx [of owner s t]
      have "k' \<in> set (map stake_key (mints s))" by auto
      with lost Claim IH show ?thesis by auto
    next
      case won
      with Claim IH show ?thesis by auto
    qed
  next
    case (Minted h n t)
    with IH show ?thesis by simp
  qed
qed

section \<open>BigInt reads back a printed number\<close>

lemma below_ten: "d < 10 \<Longrightarrow> d \<in> {0, 1, 2, 3, 4, 5, 6, 7, 8, 9::nat}"
  by auto

lemma digit_value_digit_char: "d < 10 \<Longrightarrow> digit_value (digit_char d) = Some d"
  by (drule below_ten) (auto simp: digit_value_def digit_char_def)

lemma digit_char_plain:
  "d < 10 \<Longrightarrow> \<not> StrWhiteSpaceChar (digit_char d) \<and> digit_char d \<notin> set ''+-xXoObB''"
  by (drule below_ten) (auto simp: StrWhiteSpaceChar_def digit_char_def)

lemma decimal_plain:
  "\<forall>c \<in> set (decimal n). \<not> StrWhiteSpaceChar c \<and> c \<notin> set ''+-xXoObB''"
proof (induction n rule: decimal.induct)
  case (1 n)
  show ?case
  proof (cases "n < 10")
    case True
    then show ?thesis using digit_char_plain [of n] by (simp add: decimal.simps)
  next
    case False
    have "n mod 10 < 10" by simp
    from digit_char_plain [OF this] 1 False show ?thesis
      by (subst decimal.simps) simp
  qed
qed

lemma decimal_nonempty: "decimal n \<noteq> []"
  by (subst decimal.simps) simp

lemma digits_value_append:
  "digits_value r (xs @ ys) acc =
     (case digits_value r xs acc of None \<Rightarrow> None | Some a \<Rightarrow> digits_value r ys a)"
  by (induction xs arbitrary: acc) (auto split: option.splits)

lemma digits_value_decimal: "digits_value 10 (decimal n) 0 = Some n"
proof (induction n rule: decimal.induct)
  case (1 n)
  show ?case
  proof (cases "n < 10")
    case True
    then show ?thesis by (simp add: decimal.simps digit_value_digit_char)
  next
    case False
    have "digits_value 10 (decimal (n div 10) @ [digit_char (n mod 10)]) 0 = Some n"
      using 1 False by (simp add: digits_value_append digit_value_digit_char)
    with False show ?thesis by (subst decimal.simps) simp
  qed
qed

lemma trim_plain:
  assumes "\<forall>c \<in> set t. \<not> StrWhiteSpaceChar c"
  shows "trim t = t"
proof -
  have "dropWhile StrWhiteSpaceChar xs = xs" if "\<forall>c \<in> set xs. \<not> StrWhiteSpaceChar c" for xs
    using that by (cases xs) simp_all
  from this [of t] this [of "rev t"] assms show ?thesis by (simp add: trim_def)
qed

lemma StringToBigInt_decimal: "StringToBigInt (decimal n) = Some (int n)"
proof -
  let ?t = "decimal n"
  have p: "\<forall>c \<in> set ?t. \<not> StrWhiteSpaceChar c \<and> c \<notin> set ''+-xXoObB''"
    by (rule decimal_plain)
  then have t: "trim ?t = ?t" by (intro trim_plain) simp
  have ne: "?t \<noteq> []" by (rule decimal_nonempty)
  then have "hd ?t \<in> set ?t" by simp
  with p have hd: "hd ?t \<noteq> CHR ''+''" "hd ?t \<noteq> CHR ''-''" by auto
  have no_prefix: "take 2 ?t \<noteq> [CHR ''0'', c]" if "c \<in> set ''xXoObB''" for c
  proof
    assume "take 2 ?t = [CHR ''0'', c]"
    then have "c \<in> set (take 2 ?t)" by simp
    then have "c \<in> set ?t" by (rule in_set_takeD)
    with p that show False by auto
  qed
  have "take 2 ?t \<noteq> ''0x''" "take 2 ?t \<noteq> ''0X''" "take 2 ?t \<noteq> ''0o''" "take 2 ?t \<noteq> ''0O''"
    "take 2 ?t \<noteq> ''0b''" "take 2 ?t \<noteq> ''0B''"
    by (rule no_prefix, simp)+
  with t ne hd show ?thesis
    by (simp add: StringToBigInt_def numeral_value_def digits_value_decimal)
qed

section \<open>The sample data evaluated\<close>

lemma BigInt_sample: "BigInt ''1000000'' = Inr 1000000"
  by (simp add: BigInt_def StringToBigInt_def trim_def StrWhiteSpaceChar_def numeral_value_def
      digit_value_def)

lemma decimal_small: "decimal 0 = ''0''" "decimal (Suc 0) = ''1''"
  by (simp_all add: decimal.simps digit_char_def)

lemmas sample_defs = env_mint_fails_def env_ok_def env_lookup_fails_def empty_state_def
  deposit_a_def deposit_b_def deposit_c_def deposit_d_def state_claimed_def state_seen_a_def
  first_input_addr1_def

lemmas eval_defs = scanForPayments_def process_utxo_def utxoId_def decimal_small qualifies_def
  qty_def onlyLovelace_def BigInt_sample payerAddr_def getStakeKeyFromAddr_def mintAndSend_def
  claim_def insert_or_ignore_mint_def mark_seen_def log_call_def record_minted_def
  update_minted_def

lemma sample_ids:
  "utxoId deposit_a = ''aa#0''" "utxoId deposit_b = ''bb#1''"
  "utxoId deposit_c = ''cc#0''" "utxoId deposit_d = ''dd#0''"
  by (simp_all add: sample_defs utxoId_def decimal_small)

lemma sample_qualifies:
  "qualifies 1000000 deposit_a = Inr True" "qualifies 1000000 deposit_b = Inr False"
  "qualifies 1000000 deposit_c = Inr True" "qualifies 1000000 deposit_d = Inr True"
  by (simp_all add: sample_defs qualifies_def qty_def onlyLovelace_def BigInt_sample)

lemma sample_env:
  "PRICE env_ok = 1000000" "PRICE env_mint_fails = 1000000" "PRICE env_lookup_fails = 1000000"
  "fetch_tx_utxos env_ok ''aa'' = Inr first_input_addr1"
  "fetch_tx_utxos env_ok ''dd'' = Inr first_input_addr1"
  "fetch_tx_utxos env_mint_fails ''aa'' = Inr first_input_addr1"
  "fetch_tx_utxos env_lookup_fails t = Inl BlockfrostError"
  "payerAddr first_input_addr1 = Some ''addr1''"
  "getStakeKeyFromAddr env_ok ''addr1'' = Some ''stake1''"
  "getStakeKeyFromAddr env_mint_fails ''addr1'' = Some ''stake1''"
  "issue env_ok p t = Inr (''mint1'', ''Design_1'')"
  "issue env_mint_fails p t = Inl LucidError"
  by (simp_all add: sample_defs payerAddr_def getStakeKeyFromAddr_def)

lemma sample_tx:
  "tx_hash deposit_a = ''aa''" "tx_hash deposit_b = ''bb''" "tx_hash deposit_c = ''cc''"
  "tx_hash deposit_d = ''dd''"
  by (simp_all add: sample_defs)

section \<open>The claims\<close>

text \<open>
  C1. A transaction fixes its payer: let every pass resolve by one function from
  transaction ids to identities, and start from the empty tables. After any passes, and
  after any further interleaving of fulfilment updates and of claims made for the owners
  of their transactions: every identity has at most one row, and as many issuances were
  started for it as it has rows, so at most one. Of the claims for an identity exactly
  one inserts a row when the identity has no row yet and a claim for it is made, and none
  does when it has a row. A claim for the owner of its transaction takes the duplicate
  branch exactly when the identity has a row. A claim that inserts nothing leaves the
  state as it was, and \<^verbatim>\<open>mintAndSend\<close> returns without choosing a design or issuing. In
  the loop, a deposit of an identity that has a row is marked seen before \<^verbatim>\<open>mintAndSend\<close>
  is reached.
\<close>

theorem C1_exactly_one_claim_per_identity:
  assumes envs: "list_all (resolves_by owner) envs"
    and evs: "list_all (attributed_event owner) evs"
    and s: "s = passes envs empty_state"
  shows "length (rows_for k s) \<le> 1 \<and>
         fulfilments_for k s = length (rows_for k s) \<and>
         length (rows_for k (run_events evs s)) \<le> 1 \<and>
         fulfilments_for k (run_events evs s) = length (rows_for k (run_events evs s)) \<and>
         claims_won k evs s =
           (if k \<notin> set (map stake_key (mints s)) \<and> (\<exists>p t. Claim p k t \<in> set evs) then 1 else 0) \<and>
         fulfilments_for k (run_events evs s) = fulfilments_for k s + claims_won k evs s \<and>
         (k = owner t \<longrightarrow>
            fst (claim p k t (run_events evs s)) =
              (k \<notin> set (map stake_key (mints (run_events evs s))))) \<and>
         (\<not> fst (claim p k t s) \<longrightarrow>
            run_event (Claim p k t) s = s \<and> mintAndSend env p k t s = (Inr None, s)) \<and>
         (utxoId u \<notin> set (seen_utxos s) \<and> qualifies (PRICE env) u = Inr True \<and>
          fetch_tx_utxos env (tx_hash u) = Inr r \<and> payerAddr r = Some a \<and>
          getStakeKeyFromAddr env a = Some k \<and> k \<in> set (map stake_key (mints s)) \<longrightarrow>
            process_utxo env u s = (None, mark_seen (utxoId u) (log_call (TxUtxos (tx_hash u)) s)))"
proof -
  have inv: "ledger_inv owner s"
    unfolding s using ledger_inv_empty envs by (rule passes_ledger_inv)
  then have inv': "ledger_inv owner (run_events evs s)"
    using evs by (rule run_events_ledger_inv)
  have rows: "length (rows_for k s') \<le> 1" "fulfilments_for k s' = length (rows_for k s')"
    if "ledger_inv owner s'" for s'
    using that rows_for_length [of "mints s'" k] by (simp_all add: ledger_inv_def rows_for_def)
  have won: "claims_won k evs s =
      (if k \<notin> set (map stake_key (mints s)) \<and> (\<exists>p t. Claim p k t \<in> set evs) then 1 else 0)"
    using inv evs by (rule claims_won_attributed)
  have attributed: "fst (claim p k t (run_events evs s)) =
      (k \<notin> set (map stake_key (mints (run_events evs s))))" if "k = owner t"
    using inv' that by (rule claim_attributed)
  have lost: "run_event (Claim p k t) s = s \<and> mintAndSend env p k t s = (Inr None, s)"
    if "\<not> fst (claim p k t s)"
    using that by (cases rule: claim_cases [of p k t s]) (simp_all add: mintAndSend_def)
  have already: "process_utxo env u s = (None, mark_seen (utxoId u) (log_call (TxUtxos (tx_hash u)) s))"
    if "utxoId u \<notin> set (seen_utxos s)" "qualifies (PRICE env) u = Inr True"
      "fetch_tx_utxos env (tx_hash u) = Inr r" "payerAddr r = Some a"
      "getStakeKeyFromAddr env a = Some k" "k \<in> set (map stake_key (mints s))"
    using that by (rule process_utxo_already)
  from rows [OF inv] rows [OF inv'] won attributed lost already show ?thesis
    by (simp add: fulfilments_for_run)
qed

theorem C1_witness:
  "list_all (resolves_by (\<lambda>t. ''stake1'')) [env_lookup_fails] \<and>
   list_all (resolves_by (\<lambda>t. ''stake1'')) [env_ok, env_mint_fails] \<and>
   list_all (attributed_event (\<lambda>t. ''stake1''))
     [Claim ''addr1'' ''stake1'' ''bb'', Claim ''addr3'' ''stake1'' ''cc'',
      Minted ''mint1'' ''Design_1'' ''bb'', Claim ''addr1'' ''stake1'' ''dd''] \<and>
   claims_won ''stake1''
     [Claim ''addr1'' ''stake1'' ''bb'', Claim ''addr3'' ''stake1'' ''cc'',
      Minted ''mint1'' ''Design_1'' ''bb'', Claim ''addr1'' ''stake1'' ''dd'']
     (passes [env_lookup_fails] empty_state) = 1 \<and>
   claims_won ''stake1''
     [Claim ''addr1'' ''stake1'' ''bb'', Claim ''addr3'' ''stake1'' ''cc'',
      Minted ''mint1'' ''Design_1'' ''bb'', Claim ''addr1'' ''stake1'' ''dd'']
     (passes [env_ok, env_mint_fails] empty_state) = 0 \<and>
   fulfilments_for ''stake1'' (passes [env_ok, env_mint_fails] empty_state) = 1 \<and>
   length (rows_for ''stake1''
     (run_events [Claim ''addr1'' ''stake1'' ''bb'', Claim ''addr3'' ''stake1'' ''cc'',
                  Minted ''mint1'' ''Design_1'' ''bb'', Claim ''addr1'' ''stake1'' ''dd'']
        (passes [env_ok, env_mint_fails] empty_state))) \<le> 1"
proof -
  let ?owner = "\<lambda>t::string. ''stake1''"
  let ?evs = "[Claim ''addr1'' ''stake1'' ''bb'', Claim ''addr3'' ''stake1'' ''cc'',
      Minted ''mint1'' ''Design_1'' ''bb'', Claim ''addr1'' ''stake1'' ''dd'']"
  have e1: "list_all (resolves_by ?owner) [env_lookup_fails]"
    by (simp add: resolves_by_def sample_env)
  have e2: "list_all (resolves_by ?owner) [env_ok, env_mint_fails]"
    by (simp add: resolves_by_def sample_defs getStakeKeyFromAddr_def)
  have evs: "list_all (attributed_event ?owner) ?evs"
    by simp
  have new: "''stake1'' \<notin> set (map stake_key (mints (passes [env_lookup_fails] empty_state)))"
    by (simp add: sample_defs eval_defs)
  have old: "''stake1'' \<in> set (map stake_key (mints (passes [env_ok, env_mint_fails] empty_state)))"
    and one: "length (rows_for ''stake1'' (passes [env_ok, env_mint_fails] empty_state)) = 1"
    by (simp_all add: sample_defs eval_defs rows_for_def pending_row_def)
  have some: "\<exists>p t. Claim p ''stake1'' t \<in> set ?evs"
    by auto
  note c1 = C1_exactly_one_claim_per_identity [OF e1 evs refl, of "''stake1''"]
  note c2 = C1_exactly_one_claim_per_identity [OF e2 evs refl, of "''stake1''"]
  from c1 new some have w1: "claims_won ''stake1'' ?evs (passes [env_lookup_fails] empty_state) = 1"
    by presburger
  from c2 old have w2: "claims_won ''stake1'' ?evs (passes [env_ok, env_mint_fails] empty_state) = 0"
    by presburger
  from c2 one have w3: "fulfilments_for ''stake1'' (passes [env_ok, env_mint_fails] empty_state) = 1"
    by presburger
  from c2 have w4: "length (rows_for ''stake1''
      (run_events ?evs (passes [env_ok, env_mint_fails] empty_state))) \<le> 1"
    by blast
  from e1 e2 evs w1 w2 w3 w4 show ?thesis by blast
qed

text \<open>
  C2. The classifier is a function of the price and the deposit alone. A deposit
  qualifies if and only if its value breakdown is a single pair whose unit is
  \<^verbatim>\<open>lovelace\<close> and whose quantity \<^verbatim>\<open>BigInt\<close> reads as exactly the price. In particular the
  single pair (lovelace, PRICE) qualifies, the same with a second entry does not, and
  (lovelace, m) qualifies only for \<open>m\<close> equal to the price.
\<close>

theorem C2_deposit_classifier:
  "(qualifies price u = Inr True \<longleftrightarrow>
      (\<exists>a. amount u = [a] \<and> unit a = ''lovelace'' \<and> StringToBigInt (quantity a) = Some price)) \<and>
   qualifies (int n) (u\<lparr>amount := [\<lparr>unit = ''lovelace'', quantity = decimal n\<rparr>]\<rparr>) = Inr True \<and>
   qualifies (int n) (u\<lparr>amount := [\<lparr>unit = ''lovelace'', quantity = decimal n\<rparr>, b]\<rparr>) = Inr False \<and>
   qualifies (int n) (u\<lparr>amount := [\<lparr>unit = ''lovelace'', quantity = decimal m\<rparr>]\<rparr>) = Inr (m = n)"
proof -
  have iff: "qualifies price u = Inr True \<longleftrightarrow>
      (\<exists>a. amount u = [a] \<and> unit a = ''lovelace'' \<and> StringToBigInt (quantity a) = Some price)"
    by (cases "amount u" rule: remdups_adj.cases)
       (auto simp: qualifies_def qty_def onlyLovelace_def BigInt_def split: option.splits)
  have one: "qualifies (int n) (u\<lparr>amount := [\<lparr>unit = ''lovelace'', quantity = decimal m\<rparr>]\<rparr>) = Inr (m = n)"
    for m
    by (simp add: qualifies_def qty_def onlyLovelace_def BigInt_def StringToBigInt_decimal)
  have two: "qualifies (int n) (u\<lparr>amount := [\<lparr>unit = ''lovelace'', quantity = decimal n\<rparr>, b]\<rparr>) = Inr False"
    by (simp add: qualifies_def qty_def onlyLovelace_def)
  from iff one [of n] one [of m] two show ?thesis by simp
qed

text \<open>
  C3, as amended. For an unseen qualifying deposit whose payer resolves to an identity
  on which the claim inserts a row, the loop body starts one issuance and goes on to the
  next deposit. When the issuance returns, the deposit is marked seen in that step and
  the row is fulfilled. When the issuance throws, the Seen-Set is left as it was and the
  row stays pending; the next examination of the deposit that resolves it to the same
  identity marks it seen through the already-entitled branch.
\<close>

theorem C3_seen_only_when_fulfilment_returns:
  assumes unseen: "utxoId u \<notin> set (seen_utxos s)"
    and q: "qualifies (PRICE env) u = Inr True"
    and lookup: "fetch_tx_utxos env (tx_hash u) = Inr r" "payerAddr r = Some a"
      "getStakeKeyFromAddr env a = Some k"
    and fresh: "k \<notin> set (map stake_key (mints s))" "tx_hash u \<notin> set (map paid_tx (mints s))"
    and lookup': "qualifies (PRICE env') u = Inr True" "fetch_tx_utxos env' (tx_hash u) = Inr r'"
      "payerAddr r' = Some a'" "getStakeKeyFromAddr env' a' = Some k"
  shows "fst (process_utxo env u s) = None \<and>
         fulfilments (snd (process_utxo env u s)) = fulfilments s @ [Fulfil a k (tx_hash u)] \<and>
         (case issue env a (tx_hash u) of
            Inr (h, n) \<Rightarrow>
              seen_utxos (snd (process_utxo env u s)) = seen_utxos s @ [utxoId u] \<and>
              mints (snd (process_utxo env u s)) =
                mints s @ [(pending_row k a (tx_hash u))
                             \<lparr>minted_tx := Some h, asset_name := Some n\<rparr>]
          | Inl e \<Rightarrow>
              seen_utxos (snd (process_utxo env u s)) = seen_utxos s \<and>
              mints (snd (process_utxo env u s)) = mints s @ [pending_row k a (tx_hash u)] \<and>
              process_utxo env' u (snd (process_utxo env u s)) =
                (None, mark_seen (utxoId u)
                         (log_call (TxUtxos (tx_hash u)) (snd (process_utxo env u s)))))"
proof -
  let ?t = "tx_hash u"
  let ?s1 = "log_call (TxUtxos ?t) s"
  have step: "process_utxo env u s =
        (case mintAndSend env a k ?t ?s1 of
           (Inl e, s2) \<Rightarrow> (None, s2)
         | (Inr mintedTx, s2) \<Rightarrow> (None, mark_seen (utxoId u) s2))"
    using unseen q lookup fresh(1) by (rule process_utxo_mint)
  show ?thesis
  proof (cases "issue env a ?t")
    case (Inl e)
    have "mintAndSend env a k ?t ?s1 =
            (Inl e, log_call (Fulfil a k ?t) (?s1\<lparr>mints := mints s @ [pending_row k a ?t]\<rparr>))"
      using fresh Inl mintAndSend_throws [where s = ?s1 and env = env and payerAddress = a
          and stakeKey = k and paidTx = ?t and e = e]
      by simp
    with step have p: "process_utxo env u s =
        (None, log_call (Fulfil a k ?t) (?s1\<lparr>mints := mints s @ [pending_row k a ?t]\<rparr>))"
      by simp
    let ?s' = "snd (process_utxo env u s)"
    from p unseen have u': "utxoId u \<notin> set (seen_utxos ?s')" by simp
    from p have k': "k \<in> set (map stake_key (mints ?s'))" by simp
    have "process_utxo env' u ?s' = (None, mark_seen (utxoId u) (log_call (TxUtxos ?t) ?s'))"
      using u' lookup' k' by (rule process_utxo_already)
    with p Inl show ?thesis by simp
  next
    case (Inr hn)
    obtain h n where hn: "hn = (h, n)" by (cases hn)
    have "mintAndSend env a k ?t ?s1 =
            (Inr (Some h), log_call (Fulfil a k ?t)
               (?s1\<lparr>mints := mints s @ [(pending_row k a ?t)
                                         \<lparr>minted_tx := Some h, asset_name := Some n\<rparr>]\<rparr>))"
      using fresh Inr hn mintAndSend_minted [where s = ?s1 and env = env and payerAddress = a
          and stakeKey = k and paidTx = ?t and txHash = h and name = n]
      by simp
    with step have "process_utxo env u s =
        (None, mark_seen (utxoId u) (log_call (Fulfil a k ?t)
               (?s1\<lparr>mints := mints s @ [(pending_row k a ?t)
                                         \<lparr>minted_tx := Some h, asset_name := Some n\<rparr>]\<rparr>)))"
      by simp
    with Inr hn unseen show ?thesis by (simp add: mark_seen_new)
  qed
qed

theorem C3_witness:
  "utxoId deposit_a \<notin> set (seen_utxos empty_state) \<and>
   qualifies (PRICE env_mint_fails) deposit_a = Inr True \<and>
   fetch_tx_utxos env_mint_fails (tx_hash deposit_a) = Inr first_input_addr1 \<and>
   payerAddr first_input_addr1 = Some ''addr1'' \<and>
   getStakeKeyFromAddr env_mint_fails ''addr1'' = Some ''stake1'' \<and>
   ''stake1'' \<notin> set (map stake_key (mints empty_state)) \<and>
   tx_hash deposit_a \<notin> set (map paid_tx (mints empty_state)) \<and>
   issue env_mint_fails ''addr1'' (tx_hash deposit_a) = Inl LucidError \<and>
   seen_utxos (snd (process_utxo env_mint_fails deposit_a empty_state)) = [] \<and>
   mints (snd (process_utxo env_mint_fails deposit_a empty_state)) = [pending_row ''stake1'' ''addr1'' ''aa''] \<and>
   process_utxo env_ok deposit_a (snd (process_utxo env_mint_fails deposit_a empty_state)) =
     (None, mark_seen ''aa#0'' (log_call (TxUtxos ''aa'')
        (snd (process_utxo env_mint_fails deposit_a empty_state)))) \<and>
   issue env_ok ''addr1'' (tx_hash deposit_a) = Inr (''mint1'', ''Design_1'') \<and>
   seen_utxos (snd (process_utxo env_ok deposit_a empty_state)) = [''aa#0'']"
proof -
  have unseen: "utxoId deposit_a \<notin> set (seen_utxos empty_state)"
    by (simp add: empty_state_def)
  have q: "qualifies (PRICE env_mint_fails) deposit_a = Inr True"
    and q': "qualifies (PRICE env_ok) deposit_a = Inr True"
    by (simp_all add: sample_env sample_qualifies)
  have lookup: "fetch_tx_utxos env_mint_fails (tx_hash deposit_a) = Inr first_input_addr1"
    "payerAddr first_input_addr1 = Some ''addr1''"
    "getStakeKeyFromAddr env_mint_fails ''addr1'' = Some ''stake1''"
    and lookup': "fetch_tx_utxos env_ok (tx_hash deposit_a) = Inr first_input_addr1"
    "payerAddr first_input_addr1 = Some ''addr1''"
    "getStakeKeyFromAddr env_ok ''addr1'' = Some ''stake1''"
    by (simp_all add: sample_env sample_tx)
  have fresh: "''stake1'' \<notin> set (map stake_key (mints empty_state))"
    "tx_hash deposit_a \<notin> set (map paid_tx (mints empty_state))"
    by (simp_all add: empty_state_def)
  have e: "issue env_mint_fails ''addr1'' (tx_hash deposit_a) = Inl LucidError"
    and ok: "issue env_ok ''addr1'' (tx_hash deposit_a) = Inr (''mint1'', ''Design_1'')"
    by (simp_all add: sample_env)
  from C3_seen_only_when_fulfilment_returns [OF unseen q lookup fresh q' lookup']
    C3_seen_only_when_fulfilment_returns [OF unseen q' lookup' fresh q' lookup']
  show ?thesis using unseen q lookup fresh e ok
    by (simp add: sample_tx sample_ids empty_state_def)
qed

theorem C3_counterexample:
  "fst (claim ''addr1'' ''stake1'' ''aa'' (log_call (TxUtxos ''aa'') empty_state)) \<and>
   process_utxo env_mint_fails deposit_a empty_state =
     (None, \<lparr>mints = [pending_row ''stake1'' ''addr1'' ''aa''], seen_utxos = [],
             calls = [TxUtxos ''aa'', Fulfil ''addr1'' ''stake1'' ''aa'']\<rparr>) \<and>
   utxoId deposit_a \<notin> set (seen_utxos (snd (process_utxo env_mint_fails deposit_a empty_state)))"
  by (simp add: sample_defs eval_defs)

text \<open>
  C4, as amended. Let a pass reach an unseen qualifying deposit. If the input lookup for
  its transaction answers, the loop goes on to the deposits after it, whatever the
  resolution finds and whether or not the issuance throws. If the input lookup throws,
  the pass ends there: the result is the state at that deposit with the lookup logged,
  and no later deposit of the page is examined.
\<close>

theorem C4_lookup_failure_ends_pass:
  assumes reach: "scan_loop env pre s = (None, s1)"
    and unseen: "utxoId u \<notin> set (seen_utxos s1)"
    and q: "qualifies (PRICE env) u = Inr True"
  shows "scan_loop env (pre @ u # post) s =
           (case fetch_tx_utxos env (tx_hash u) of
              Inl e \<Rightarrow> (Some e, log_call (TxUtxos (tx_hash u)) s1)
            | Inr r \<Rightarrow> scan_loop env post (snd (process_utxo env u s1)))"
proof (cases "fetch_tx_utxos env (tx_hash u)")
  case (Inl e)
  with unseen q have "process_utxo env u s1 = (Some e, log_call (TxUtxos (tx_hash u)) s1)"
    by (simp add: process_utxo_lookup_throws)
  with reach Inl show ?thesis by (simp add: scan_loop_append)
next
  case (Inr r)
  with unseen q have "fst (process_utxo env u s1) = None"
    by (simp add: process_utxo_def Let_def split: option.splits prod.splits sum.splits)
  then have "scan_loop env (u # post) s1 = scan_loop env post (snd (process_utxo env u s1))"
    by (cases "process_utxo env u s1") simp
  with reach Inr show ?thesis by (simp add: scan_loop_append)
qed

theorem C4_witness:
  "scan_loop env_lookup_fails [deposit_b] empty_state = (None, mark_seen ''bb#1'' empty_state) \<and>
   utxoId deposit_a \<notin> set (seen_utxos (mark_seen ''bb#1'' empty_state)) \<and>
   qualifies (PRICE env_lookup_fails) deposit_a = Inr True \<and>
   scan_loop env_lookup_fails [deposit_b, deposit_a, deposit_c] empty_state =
     (Some BlockfrostError, log_call (TxUtxos ''aa'') (mark_seen ''bb#1'' empty_state)) \<and>
   scan_loop env_mint_fails [deposit_b] empty_state = (None, mark_seen ''bb#1'' empty_state) \<and>
   qualifies (PRICE env_mint_fails) deposit_a = Inr True \<and>
   scan_loop env_mint_fails [deposit_b, deposit_a, deposit_c] empty_state =
     scan_loop env_mint_fails [deposit_c]
       (snd (process_utxo env_mint_fails deposit_a (mark_seen ''bb#1'' empty_state)))"
proof -
  let ?s1 = "mark_seen ''bb#1'' empty_state"
  have reach: "scan_loop env_lookup_fails [deposit_b] empty_state = (None, ?s1)"
    and reach': "scan_loop env_mint_fails [deposit_b] empty_state = (None, ?s1)"
    by (simp_all add: process_utxo_rejected sample_ids sample_qualifies sample_env empty_state_def)
  have unseen: "utxoId deposit_a \<notin> set (seen_utxos ?s1)"
    by (simp add: sample_ids empty_state_def)
  have q: "qualifies (PRICE env_lookup_fails) deposit_a = Inr True"
    and q': "qualifies (PRICE env_mint_fails) deposit_a = Inr True"
    by (simp_all add: sample_env sample_qualifies)
  have c: "scan_loop env_lookup_fails [deposit_b, deposit_a, deposit_c] empty_state =
     (Some BlockfrostError, log_call (TxUtxos ''aa'') ?s1)"
    using C4_lookup_failure_ends_pass [OF reach unseen q, of "[deposit_c]"]
    by (simp del: scan_loop.simps add: sample_env sample_tx)
  have c': "scan_loop env_mint_fails [deposit_b, deposit_a, deposit_c] empty_state =
     scan_loop env_mint_fails [deposit_c] (snd (process_utxo env_mint_fails deposit_a ?s1))"
    using C4_lookup_failure_ends_pass [OF reach' unseen q', of "[deposit_c]"]
    by (simp del: scan_loop.simps add: sample_env sample_tx)
  from reach unseen q c reach' q' c' show ?thesis by blast
qed

theorem C4_counterexample:
  "address_utxos env_lookup_fails = Inr [deposit_a, deposit_b] \<and>
   qualifies (PRICE env_lookup_fails) deposit_a = Inr True \<and>
   fetch_tx_utxos env_lookup_fails (tx_hash deposit_a) = Inl BlockfrostError \<and>
   scanForPayments env_lookup_fails empty_state = log_call (TxUtxos ''aa'') empty_state \<and>
   utxoId deposit_b \<notin> set (seen_utxos (scanForPayments env_lookup_fails empty_state)) \<and>
   process_utxo env_lookup_fails deposit_b (log_call (TxUtxos ''aa'') empty_state)
     = (None, mark_seen ''bb#1'' (log_call (TxUtxos ''aa'') empty_state))"
  by (simp add: sample_defs eval_defs)



text \<open>
  C6. Let a pass reach an unseen deposit that the classifier rejects, or whose
  transaction has no first-input payer address, or whose payer address yields no staking
  credential (also when the address parser throws). The loop body marks it seen, leaves
  \<^verbatim>\<open>mints\<close> as it was, starts no issuance and goes on; the deposit is in the Seen-Set at
  the end of that pass; and after any number of further passes every examination of the
  deposit is a skip that changes nothing.
\<close>

theorem C6_disqualified_marked_seen:
  assumes reach: "scan_loop env pre s0 = (None, s)"
    and unseen: "utxoId u \<notin> set (seen_utxos s)"
    and disq: "qualifies (PRICE env) u = Inr False \<or>
               qualifies (PRICE env) u = Inr True \<and>
               (\<exists>r. fetch_tx_utxos env (tx_hash u) = Inr r \<and>
                    (payerAddr r = None \<or>
                     (\<exists>a. payerAddr r = Some a \<and>
                          (getStakeKeyFromAddr env a = None \<or>
                           (\<exists>e. getAddressDetails env a = Inl e)))))"
  shows "fst (process_utxo env u s) = None \<and>
         seen_utxos (snd (process_utxo env u s)) = seen_utxos s @ [utxoId u] \<and>
         mints (snd (process_utxo env u s)) = mints s \<and>
         fulfilments (snd (process_utxo env u s)) = fulfilments s \<and>
         utxoId u \<in> set (seen_utxos (snd (scan_loop env (pre @ u # post) s0))) \<and>
         (\<forall>envs env'. process_utxo env' u (passes envs (snd (process_utxo env u s)))
                        = (None, passes envs (snd (process_utxo env u s))))"
proof -
  let ?s' = "snd (process_utxo env u s)"
  have step: "process_utxo env u s = (None, mark_seen (utxoId u) s) \<or>
              process_utxo env u s = (None, mark_seen (utxoId u) (log_call (TxUtxos (tx_hash u)) s))"
    using disq
  proof (elim disjE conjE exE)
    assume "qualifies (PRICE env) u = Inr False"
    with unseen show ?thesis by (simp add: process_utxo_rejected)
  next
    fix r assume "qualifies (PRICE env) u = Inr True" "fetch_tx_utxos env (tx_hash u) = Inr r"
      "payerAddr r = None"
    with unseen show ?thesis by (simp add: process_utxo_no_payer)
  next
    fix r a assume "qualifies (PRICE env) u = Inr True" "fetch_tx_utxos env (tx_hash u) = Inr r"
      "payerAddr r = Some a" "getStakeKeyFromAddr env a = None"
    with unseen show ?thesis by (simp add: process_utxo_no_stake)
  next
    fix r a e assume "qualifies (PRICE env) u = Inr True" "fetch_tx_utxos env (tx_hash u) = Inr r"
      "payerAddr r = Some a" "getAddressDetails env a = Inl e"
    with unseen show ?thesis by (simp add: process_utxo_no_stake getStakeKeyFromAddr_throws)
  qed
  with unseen have now: "fst (process_utxo env u s) = None"
    "seen_utxos ?s' = seen_utxos s @ [utxoId u]" "mints ?s' = mints s"
    "fulfilments ?s' = fulfilments s"
    by (auto simp: mark_seen_new)
  from now(2) have marked: "utxoId u \<in> set (seen_utxos ?s')" by simp
  have pass: "utxoId u \<in> set (seen_utxos (snd (scan_loop env (pre @ u # post) s0)))"
  proof -
    from now(1) have "scan_loop env (u # post) s = scan_loop env post ?s'"
      by (cases "process_utxo env u s") simp
    with reach have "scan_loop env (pre @ u # post) s0 = scan_loop env post ?s'"
      by (simp add: scan_loop_append)
    with marked scan_loop_frame [of env post ?s'] show ?thesis by auto
  qed
  have later: "process_utxo env' u (passes envs ?s') = (None, passes envs ?s')" for envs env'
  proof -
    from marked have "utxoId u \<in> set (seen_utxos (passes envs ?s'))" by (rule passes_seen_mono)
    then show ?thesis by (rule process_utxo_seen)
  qed
  from now pass later show ?thesis by simp
qed

theorem C6_witness:
  "scan_loop env_ok [deposit_b] empty_state = (None, mark_seen ''bb#1'' empty_state) \<and>
   utxoId deposit_c \<notin> set (seen_utxos (mark_seen ''bb#1'' empty_state)) \<and>
   qualifies (PRICE env_ok) deposit_c = Inr True \<and>
   fetch_tx_utxos env_ok (tx_hash deposit_c) = Inr \<lparr>inputs = Some []\<rparr> \<and>
   payerAddr \<lparr>inputs = Some []\<rparr> = None \<and>
   seen_utxos (snd (process_utxo env_ok deposit_c (mark_seen ''bb#1'' empty_state)))
     = [''bb#1'', ''cc#0''] \<and>
   mints (snd (process_utxo env_ok deposit_c (mark_seen ''bb#1'' empty_state))) = [] \<and>
   utxoId deposit_c \<in>
     set (seen_utxos (snd (scan_loop env_ok [deposit_b, deposit_c, deposit_a] empty_state))) \<and>
   process_utxo env_mint_fails deposit_c
       (passes [env_ok] (snd (process_utxo env_ok deposit_c (mark_seen ''bb#1'' empty_state))))
     = (None, passes [env_ok] (snd (process_utxo env_ok deposit_c (mark_seen ''bb#1'' empty_state))))"
proof -
  let ?s = "mark_seen ''bb#1'' empty_state"
  have idb: "utxoId deposit_b = ''bb#1''" and idc: "utxoId deposit_c = ''cc#0''"
    by (simp_all add: sample_defs eval_defs)
  have qb: "qualifies (PRICE env_ok) deposit_b = Inr False"
    by (simp add: sample_defs eval_defs)
  have reach: "scan_loop env_ok [deposit_b] empty_state = (None, ?s)"
    by (simp add: process_utxo_rejected idb qb empty_state_def)
  have unseen: "utxoId deposit_c \<notin> set (seen_utxos ?s)"
    by (simp add: idc empty_state_def)
  have q: "qualifies (PRICE env_ok) deposit_c = Inr True"
    by (simp add: sample_defs eval_defs)
  have r: "fetch_tx_utxos env_ok (tx_hash deposit_c) = Inr \<lparr>inputs = Some []\<rparr>"
    by (simp add: sample_defs)
  have none: "payerAddr \<lparr>inputs = Some []\<rparr> = None"
    by (simp add: payerAddr_def)
  from q r none have disq: "qualifies (PRICE env_ok) deposit_c = Inr False \<or>
      qualifies (PRICE env_ok) deposit_c = Inr True \<and>
      (\<exists>r. fetch_tx_utxos env_ok (tx_hash deposit_c) = Inr r \<and>
           (payerAddr r = None \<or>
            (\<exists>a. payerAddr r = Some a \<and>
                 (getStakeKeyFromAddr env_ok a = None \<or>
                  (\<exists>e. getAddressDetails env_ok a = Inl e)))))"
    by blast
  note c = C6_disqualified_marked_seen [OF reach unseen disq, of "[deposit_a]",
      unfolded append.simps]
  from c have c1: "seen_utxos (snd (process_utxo env_ok deposit_c ?s)) = seen_utxos ?s @ [utxoId deposit_c]"
    and c2: "mints (snd (process_utxo env_ok deposit_c ?s)) = mints ?s"
    and c3: "utxoId deposit_c \<in>
      set (seen_utxos (snd (scan_loop env_ok [deposit_b, deposit_c, deposit_a] empty_state)))"
    and c4: "process_utxo env_mint_fails deposit_c (passes [env_ok] (snd (process_utxo env_ok deposit_c ?s)))
      = (None, passes [env_ok] (snd (process_utxo env_ok deposit_c ?s)))"
    by blast+
  have c1': "seen_utxos (snd (process_utxo env_ok deposit_c ?s)) = [''bb#1'', ''cc#0'']"
    unfolding c1 by (simp add: idc empty_state_def mark_seen_def)
  have c2': "mints (snd (process_utxo env_ok deposit_c ?s)) = []"
    unfolding c2 by (simp add: empty_state_def)
  from reach unseen q r none c1' c2' c3 c4 show ?thesis by blast
qed

text \<open>
  C7. Applying the fulfilment update (\<^verbatim>\<open>UPDATE mints SET minted_tx, asset_name WHERE paid_tx\<close>)
  twice with the same transaction hash, design name and paid transaction id gives, from
  any state, the state one application gives. The update is a total function, so the
  second application is no error.
\<close>

theorem C7_record_minted_idempotent:
  "record_minted txHash name paidTx (record_minted txHash name paidTx s)
     = record_minted txHash name paidTx s"
  by (simp add: record_minted_def update_minted_twice)

text \<open>
  C8. Through any sequence of passes, whatever the collaborators answer, the Seen-Set
  holds every identifier at most once, an identifier in it stays in it, marking it again
  changes nothing, and examining a deposit with that identifier is a skip: the loop goes
  on with the state unchanged, so no lookup, claim or issuance is made for it, whatever
  the environment.
\<close>

theorem C8_seen_once_and_skipped:
  assumes "distinct (seen_utxos s)" and "utxoId u \<in> set (seen_utxos s)"
  shows "distinct (seen_utxos (passes envs s)) \<and>
         utxoId u \<in> set (seen_utxos (passes envs s)) \<and>
         mark_seen (utxoId u) (passes envs s) = passes envs s \<and>
         process_utxo env u (passes envs s) = (None, passes envs s)"
proof -
  have d: "distinct (seen_utxos (passes envs s))"
    using assms(1) passes_frame [of envs s] by simp
  have m: "utxoId u \<in> set (seen_utxos (passes envs s))"
    using assms(2) by (rule passes_seen_mono)
  from m have "mark_seen (utxoId u) (passes envs s) = passes envs s"
    by (simp add: mark_seen_def)
  moreover from m have "process_utxo env u (passes envs s) = (None, passes envs s)"
    by (rule process_utxo_seen)
  ultimately show ?thesis using d m by simp
qed

theorem C8_witness:
  "distinct (seen_utxos state_seen_a) \<and> utxoId deposit_a \<in> set (seen_utxos state_seen_a) \<and>
   distinct (seen_utxos (passes [env_ok, env_mint_fails] state_seen_a)) \<and>
   process_utxo env_lookup_fails deposit_a (passes [env_ok, env_mint_fails] state_seen_a)
     = (None, passes [env_ok, env_mint_fails] state_seen_a)"
proof -
  have h1: "distinct (seen_utxos state_seen_a)"
    by (simp add: state_seen_a_def)
  have h2: "utxoId deposit_a \<in> set (seen_utxos state_seen_a)"
    by (simp add: state_seen_a_def deposit_a_def utxoId_def decimal_small)
  from C8_seen_once_and_skipped [OF h1 h2, of "[env_ok, env_mint_fails]" env_lookup_fails] h1 h2
  show ?thesis by simp
qed

text \<open>
  C9. When the issuance throws after a claim that inserted a row, \<^verbatim>\<open>mintAndSend\<close> throws
  and the row is in the table with \<^verbatim>\<open>minted_tx\<close> and \<^verbatim>\<open>asset_name\<close> NULL. After any
  further passes the row is still there, unchanged, in its place; no claim with that paid
  transaction id or for that identity inserts; and an unseen qualifying deposit that
  resolves to the identity takes the already-entitled branch: it is marked seen,
  \<^verbatim>\<open>mints\<close> is unchanged and no issuance is started.
\<close>

theorem C9_failed_issuance_keeps_claim:
  assumes fresh: "k \<notin> set (map stake_key (mints s))" "t \<notin> set (map paid_tx (mints s))"
    and throws: "issue env p t = Inl e"
    and s': "s' = snd (mintAndSend env p k t s)"
    and s'': "s'' = passes envs s'"
    and unseen: "utxoId u \<notin> set (seen_utxos s'')"
    and lookup: "qualifies (PRICE env') u = Inr True" "fetch_tx_utxos env' (tx_hash u) = Inr r"
      "payerAddr r = Some a" "getStakeKeyFromAddr env' a = Some k"
  shows "fst (mintAndSend env p k t s) = Inl e \<and>
         mints s' = mints s @ [pending_row k p t] \<and>
         (\<exists>rs. mints s'' = mints s @ [pending_row k p t] @ rs) \<and>
         claim p' k' t s'' = (False, s'') \<and>
         claim p' k t' s'' = (False, s'') \<and>
         process_utxo env' u s'' = (None, mark_seen (utxoId u) (log_call (TxUtxos (tx_hash u)) s'')) \<and>
         mints (snd (process_utxo env' u s'')) = mints s'' \<and>
         fulfilments (snd (process_utxo env' u s'')) = fulfilments s''"
proof -
  have m: "mintAndSend env p k t s =
       (Inl e, log_call (Fulfil p k t) (s\<lparr>mints := mints s @ [pending_row k p t]\<rparr>))"
    using fresh throws by (rule mintAndSend_throws)
  with s' have row: "mints s' = mints s @ [pending_row k p t]" by simp
  from passes_frame [of envs s'] s'' row
  have kept: "\<exists>rs. mints s'' = mints s @ [pending_row k p t] @ rs" by auto
  then have k: "k \<in> set (map stake_key (mints s''))" and t: "t \<in> set (map paid_tx (mints s''))"
    by auto
  have "process_utxo env' u s'' = (None, mark_seen (utxoId u) (log_call (TxUtxos (tx_hash u)) s''))"
    using unseen lookup k by (rule process_utxo_already)
  with m row kept k t show ?thesis by (simp add: claim_duplicate)
qed

theorem C9_witness:
  "''stake1'' \<notin> set (map stake_key (mints empty_state)) \<and>
   ''aa'' \<notin> set (map paid_tx (mints empty_state)) \<and>
   issue env_mint_fails ''addr1'' ''aa'' = Inl LucidError \<and>
   utxoId deposit_d \<notin> set (seen_utxos
      (passes [env_ok] (snd (mintAndSend env_mint_fails ''addr1'' ''stake1'' ''aa'' empty_state)))) \<and>
   qualifies (PRICE env_ok) deposit_d = Inr True \<and>
   fetch_tx_utxos env_ok (tx_hash deposit_d) = Inr first_input_addr1 \<and>
   payerAddr first_input_addr1 = Some ''addr1'' \<and>
   getStakeKeyFromAddr env_ok ''addr1'' = Some ''stake1'' \<and>
   fst (mintAndSend env_mint_fails ''addr1'' ''stake1'' ''aa'' empty_state) = Inl LucidError \<and>
   mints (snd (mintAndSend env_mint_fails ''addr1'' ''stake1'' ''aa'' empty_state))
     = [pending_row ''stake1'' ''addr1'' ''aa''] \<and>
   fulfilments (snd (process_utxo env_ok deposit_d
      (passes [env_ok] (snd (mintAndSend env_mint_fails ''addr1'' ''stake1'' ''aa'' empty_state)))))
     = fulfilments
      (passes [env_ok] (snd (mintAndSend env_mint_fails ''addr1'' ''stake1'' ''aa'' empty_state)))"
proof -
  let ?s' = "snd (mintAndSend env_mint_fails ''addr1'' ''stake1'' ''aa'' empty_state)"
  let ?s'' = "passes [env_ok] ?s'"
  have fresh: "''stake1'' \<notin> set (map stake_key (mints empty_state))"
    "''aa'' \<notin> set (map paid_tx (mints empty_state))"
    by (simp_all add: empty_state_def)
  have throws: "issue env_mint_fails ''addr1'' ''aa'' = Inl LucidError"
    by (simp add: sample_env)
  have unseen: "utxoId deposit_d \<notin> set (seen_utxos ?s'')"
    by (simp add: sample_defs eval_defs)
  have lookup: "qualifies (PRICE env_ok) deposit_d = Inr True"
    "fetch_tx_utxos env_ok (tx_hash deposit_d) = Inr first_input_addr1"
    "payerAddr first_input_addr1 = Some ''addr1''"
    "getStakeKeyFromAddr env_ok ''addr1'' = Some ''stake1''"
    by (simp_all add: sample_env sample_qualifies sample_tx)
  note c = C9_failed_issuance_keeps_claim [OF fresh throws refl refl unseen lookup]
  from c have c1: "fst (mintAndSend env_mint_fails ''addr1'' ''stake1'' ''aa'' empty_state) = Inl LucidError"
    and c2: "mints ?s' = mints empty_state @ [pending_row ''stake1'' ''addr1'' ''aa'']"
    and c3: "fulfilments (snd (process_utxo env_ok deposit_d ?s'')) = fulfilments ?s''"
    by blast+
  have c2': "mints ?s' = [pending_row ''stake1'' ''addr1'' ''aa'']"
    unfolding c2 by (simp add: empty_state_def)
  from fresh throws unseen lookup c1 c2' c3 show ?thesis by blast
qed

text \<open>
  C10. When the paid transaction id is already in \<^verbatim>\<open>mints\<close> and the identity is not, the
  \<^verbatim>\<open>INSERT OR IGNORE\<close> changes no row, \<^verbatim>\<open>mintAndSend\<close> returns its bare \<^verbatim>\<open>return\<close> with the
  state unchanged (no design chosen, no issuance), and the identity has no row
  afterwards. In the loop such a deposit is then marked seen.
\<close>

theorem C10_paid_tx_collision_is_duplicate:
  assumes taken: "t \<in> set (map paid_tx (mints s))"
    and new: "k \<notin> set (map stake_key (mints s))"
  shows "insert_or_ignore_mint k p t (mints s) = (0, mints s) \<and>
         mintAndSend env p k t s = (Inr None, s) \<and>
         rows_for k (snd (mintAndSend env p k t s)) = [] \<and>
         (\<forall>u r. utxoId u \<notin> set (seen_utxos s) \<and> qualifies (PRICE env) u = Inr True \<and>
                tx_hash u = t \<and> fetch_tx_utxos env t = Inr r \<and> payerAddr r = Some p \<and>
                getStakeKeyFromAddr env p = Some k \<longrightarrow>
                process_utxo env u s = (None, mark_seen (utxoId u) (log_call (TxUtxos t) s)))"
proof -
  have m: "mintAndSend env p k t s' = (Inr None, s')" if "mints s' = mints s" for s'
    using taken that by (simp add: mintAndSend_duplicate)
  have "rows_for k s = []"
    using new by (auto simp: rows_for_def filter_empty_conv)
  moreover have "process_utxo env u s = (None, mark_seen (utxoId u) (log_call (TxUtxos t) s))"
    if "utxoId u \<notin> set (seen_utxos s)" "qualifies (PRICE env) u = Inr True" "tx_hash u = t"
      "fetch_tx_utxos env t = Inr r" "payerAddr r = Some p" "getStakeKeyFromAddr env p = Some k"
    for u r
    using that new m [of "log_call (TxUtxos t) s"]
      process_utxo_mint [where env = env and u = u and s = s and r = r and a = p and k = k]
    by simp
  ultimately show ?thesis
    using taken m [of s] by (simp add: insert_or_ignore_mint_def)
qed

theorem C10_witness:
  "''aa'' \<in> set (map paid_tx (mints state_claimed)) \<and>
   ''stake1'' \<notin> set (map stake_key (mints state_claimed)) \<and>
   insert_or_ignore_mint ''stake1'' ''addr1'' ''aa'' (mints state_claimed) = (0, mints state_claimed) \<and>
   mintAndSend env_ok ''addr1'' ''stake1'' ''aa'' state_claimed = (Inr None, state_claimed) \<and>
   rows_for ''stake1'' (snd (mintAndSend env_ok ''addr1'' ''stake1'' ''aa'' state_claimed)) = [] \<and>
   process_utxo env_ok deposit_a state_claimed =
     (None, mark_seen (utxoId deposit_a) (log_call (TxUtxos ''aa'') state_claimed))"
proof -
  have taken: "''aa'' \<in> set (map paid_tx (mints state_claimed))"
    and new: "''stake1'' \<notin> set (map stake_key (mints state_claimed))"
    by (simp_all add: state_claimed_def)
  note c = C10_paid_tx_collision_is_duplicate [OF taken new, of "''addr1''" env_ok]
  have d: "utxoId deposit_a \<notin> set (seen_utxos state_claimed) \<and>
      qualifies (PRICE env_ok) deposit_a = Inr True \<and> tx_hash deposit_a = ''aa'' \<and>
      fetch_tx_utxos env_ok ''aa'' = Inr first_input_addr1 \<and>
      payerAddr first_input_addr1 = Some ''addr1'' \<and>
      getStakeKeyFromAddr env_ok ''addr1'' = Some ''stake1''"
    by (simp add: sample_env sample_qualifies sample_tx state_claimed_def)
  from c d have "process_utxo env_ok deposit_a state_claimed =
     (None, mark_seen (utxoId deposit_a) (log_call (TxUtxos ''aa'') state_claimed))"
    by blast
  with c taken new show ?thesis by blast
qed

end
